theory Spec2Isabelle
  imports Main
begin

section \<open>Values exchanged with the outside world\<close>

text \<open>
  The script \<^verbatim>\<open>shazam_vinylstreamer.py\<close> reads two JSON documents: the Icecast status
  document and the recognition provider's response. Both arrive as Python objects built
  from \<^verbatim>\<open>None\<close>, booleans, integers, strings, lists and dictionaries. A dictionary is an
  association list read with \<open>map_of\<close>. JSON numbers with a fraction are outside this
  model: it has integers only.

  A Python string is the list of its UTF-8 bytes. A Python string can hold a lone
  surrogate (JSON carries one as an escape), which strict UTF-8 refuses to encode; it
  stands here as the three bytes \<^verbatim>\<open>ED A0..BF 80..BF\<close> that Python's \<^verbatim>\<open>surrogatepass\<close>
  encoding gives it, so that distinct Python strings are distinct byte lists.
\<close>

datatype json =
    JNull
  | JBool bool
  | JInt int
  | JStr string
  | JList "json list"
  | JDict "(string \<times> json) list"

datatype py_error = AttributeError | TypeError | NetworkError | OSError | UnicodeEncodeError

text \<open>
  \<^verbatim>\<open>s.encode("utf-8")\<close> raises \<^verbatim>\<open>UnicodeEncodeError\<close> exactly when \<open>s\<close> holds a surrogate:
  the byte \<^verbatim>\<open>ED\<close> followed by a byte from \<^verbatim>\<open>A0\<close> to \<^verbatim>\<open>BF\<close>.
\<close>

fun has_surrogate :: "string \<Rightarrow> bool" where
  "has_surrogate (a # b # cs) =
     ((of_char a = (237::nat) \<and> 160 \<le> (of_char b :: nat) \<and> (of_char b :: nat) \<le> 191)
      \<or> has_surrogate (b # cs))"
| "has_surrogate cs = False"

text \<open>Python truthiness, as tested by \<^verbatim>\<open>if x\<close>, \<^verbatim>\<open>not x\<close> and \<^verbatim>\<open>x or y\<close>.\<close>

fun truthy :: "json \<Rightarrow> bool" where
  "truthy JNull = False"
| "truthy (JBool b) = b"
| "truthy (JInt n) = (n \<noteq> 0)"
| "truthy (JStr s) = (s \<noteq> [])"
| "truthy (JList xs) = (xs \<noteq> [])"
| "truthy (JDict kvs) = (kvs \<noteq> [])"

text \<open>\<^verbatim>\<open>x.get(key, default)\<close>: only a dictionary has the method.\<close>

fun py_get :: "json \<Rightarrow> string \<Rightarrow> json \<Rightarrow> py_error + json" where
  "py_get (JDict kvs) k d = Inr (case map_of kvs k of None \<Rightarrow> d | Some v \<Rightarrow> v)"
| "py_get _ k d = Inl AttributeError"

text \<open>
  The elements a \<^verbatim>\<open>for\<close> loop visits: the items of a list, the keys of a dictionary, the
  characters of a string; anything else is not iterable.
\<close>

fun py_iter :: "json \<Rightarrow> py_error + json list" where
  "py_iter (JList xs) = Inr xs"
| "py_iter (JDict kvs) = Inr (map (\<lambda>kv. JStr (fst kv)) kvs)"
| "py_iter (JStr s) = Inr (map (\<lambda>c. JStr [c]) s)"
| "py_iter _ = Inl TypeError"

text \<open>
  Integers in arithmetic and comparisons: \<^verbatim>\<open>bool\<close> is a subclass of \<^verbatim>\<open>int\<close> in Python, every
  other kind of value raises \<^verbatim>\<open>TypeError\<close> when added to or compared with an integer.
\<close>

fun as_num :: "json \<Rightarrow> int option" where
  "as_num (JInt n) = Some n"
| "as_num (JBool b) = Some (if b then 1 else 0)"
| "as_num _ = None"

text \<open>
  \<^verbatim>\<open>str.lower()\<close>. Only the ASCII letters are mapped: the result is compared with the
  ASCII word \<^verbatim>\<open>album\<close> alone, and no character outside ASCII lowers to one of its letters.
\<close>

definition lower_char :: "char \<Rightarrow> char" where
  "lower_char c =
     (let n = (of_char c :: nat)
      in if 65 \<le> n \<and> n \<le> 90 then char_of (n + 32) else c)"

fun py_lower :: "json \<Rightarrow> py_error + string" where
  "py_lower (JStr s) = Inr (map lower_char s)"
| "py_lower _ = Inl AttributeError"

section \<open>Listener probe\<close>

text \<open>
  \<^verbatim>\<open>sum(s.get("listeners", 0) for s in source)\<close>, started at 0: the first element that is
  not a dictionary, or whose count is not a number, raises.
\<close>

fun sum_listeners :: "json list \<Rightarrow> int \<Rightarrow> py_error + int" where
  "sum_listeners [] acc = Inr acc"
| "sum_listeners (s # ss) acc =
     (case py_get s ''listeners'' (JInt 0) of
        Inl e \<Rightarrow> Inl e
      | Inr v \<Rightarrow> (case as_num v of
                   None \<Rightarrow> Inl TypeError
                 | Some n \<Rightarrow> sum_listeners ss (acc + n)))"

text \<open>The body of the \<^verbatim>\<open>try\<close> block, once the document has been fetched and parsed.\<close>

definition listener_count_of :: "json \<Rightarrow> py_error + json" where
  "listener_count_of data =
     (case py_get data ''icestats'' (JDict []) of
        Inl e \<Rightarrow> Inl e
      | Inr icestats \<Rightarrow>
          (case py_get icestats ''source'' (JDict []) of
             Inl e \<Rightarrow> Inl e
           | Inr source \<Rightarrow>
               (case source of
                  JList ss \<Rightarrow>
                    (case sum_listeners ss 0 of Inl e \<Rightarrow> Inl e | Inr n \<Rightarrow> Inr (JInt n))
                | _ \<Rightarrow> py_get source ''listeners'' (JInt 0))))"

text \<open>
  \<^verbatim>\<open>get_listener_count\<close>. Its argument is what fetching, decoding and parsing the status
  document gave: an exception (unreachable endpoint, timeout, malformed JSON) or the
  parsed document. Every exception ends in the \<^verbatim>\<open>except\<close> branch, which returns 0.
\<close>

definition get_listener_count :: "py_error + json \<Rightarrow> json" where
  "get_listener_count fetched =
     (case fetched of
        Inl e \<Rightarrow> JInt 0
      | Inr data \<Rightarrow> (case listener_count_of data of Inl e \<Rightarrow> JInt 0 | Inr v \<Rightarrow> v))"

section \<open>Recogniser client\<close>

text \<open>
  The inner loop over the metadata entries of one section. It stops at the first entry
  whose label lowers to \<^verbatim>\<open>album\<close> (the \<^verbatim>\<open>break\<close>), having assigned \<^verbatim>\<open>album\<close>.
\<close>

fun scan_metadata :: "json list \<Rightarrow> json \<Rightarrow> py_error + json" where
  "scan_metadata [] album = Inr album"
| "scan_metadata (meta # metas) album =
     (case py_get meta ''title'' (JStr []) of
        Inl e \<Rightarrow> Inl e
      | Inr label \<Rightarrow>
          (case py_lower label of
             Inl e \<Rightarrow> Inl e
           | Inr l \<Rightarrow>
               if l = ''album'' then py_get meta ''text'' (JStr ''Unknown'')
               else scan_metadata metas album))"

text \<open>
  The outer loop over the sections. The \<^verbatim>\<open>break\<close> leaves the inner loop only, so the
  outer loop goes on to the next section with the value of \<^verbatim>\<open>album\<close> so far.
\<close>

fun scan_sections :: "json list \<Rightarrow> json \<Rightarrow> py_error + json" where
  "scan_sections [] album = Inr album"
| "scan_sections (section # sections) album =
     (case py_get section ''metadata'' (JList []) of
        Inl e \<Rightarrow> Inl e
      | Inr ms \<Rightarrow>
          (case py_iter ms of
             Inl e \<Rightarrow> Inl e
           | Inr metas \<Rightarrow>
               (case scan_metadata metas album of
                  Inl e \<Rightarrow> Inl e
                | Inr album' \<Rightarrow> scan_sections sections album')))"

text \<open>\<^verbatim>\<open>images.get("coverarthq") or images.get("coverart") or ""\<close>\<close>

definition cover_of :: "json \<Rightarrow> py_error + json" where
  "cover_of images =
     (case py_get images ''coverarthq'' JNull of
        Inl e \<Rightarrow> Inl e
      | Inr hq \<Rightarrow>
          if truthy hq then Inr hq
          else (case py_get images ''coverart'' JNull of
                  Inl e \<Rightarrow> Inl e
                | Inr std \<Rightarrow> if truthy std then Inr std else Inr (JStr [])))"

text \<open>The body of the \<^verbatim>\<open>try\<close> block of \<^verbatim>\<open>recognize\<close>, from the provider's response on.\<close>

definition recognize_body :: "json \<Rightarrow> py_error + json" where
  "recognize_body result =
     (case py_get result ''track'' (JDict []) of
        Inl e \<Rightarrow> Inl e
      | Inr track \<Rightarrow>
          if \<not> truthy track then Inr (JDict [])
          else
            (case py_get track ''sections'' (JList []) of
               Inl e \<Rightarrow> Inl e
             | Inr secs \<Rightarrow>
            (case py_iter secs of
               Inl e \<Rightarrow> Inl e
             | Inr sections \<Rightarrow>
            (case scan_sections sections (JStr ''Unknown'') of
               Inl e \<Rightarrow> Inl e
             | Inr album \<Rightarrow>
            (case py_get track ''images'' (JDict []) of
               Inl e \<Rightarrow> Inl e
             | Inr images \<Rightarrow>
            (case cover_of images of
               Inl e \<Rightarrow> Inl e
             | Inr cover \<Rightarrow>
            (case py_get track ''title'' (JStr ''Unknown'') of
               Inl e \<Rightarrow> Inl e
             | Inr title \<Rightarrow>
            (case py_get track ''subtitle'' (JStr ''Unknown'') of
               Inl e \<Rightarrow> Inl e
             | Inr artist \<Rightarrow>
                 Inr (JDict [(''title'', title), (''artist'', artist),
                             (''album'', album), (''cover'', cover)])))))))))"

text \<open>
  \<^verbatim>\<open>recognize\<close>. Its argument is what the provider call gave: an exception or the response.
  Every exception, of the call or of the extraction, gives the empty dictionary.
\<close>

definition recognize :: "py_error + json \<Rightarrow> json" where
  "recognize response =
     (case response of
        Inl e \<Rightarrow> JDict []
      | Inr result \<Rightarrow> (case recognize_body result of Inl e \<Rightarrow> JDict [] | Inr d \<Rightarrow> d))"

section \<open>Configuration\<close>

definition ICECAST_MOUNT :: string where
  "ICECAST_MOUNT = ''/stream.mp3''"

definition COVER_PUBLIC_URL :: string where
  "COVER_PUBLIC_URL = ''http://localhost:8000/cover.jpg''"

definition POLL_INTERVAL :: nat where
  "POLL_INTERVAL = 30"

section \<open>Tracks, files and the trace of effects\<close>

text \<open>
  The orchestration works on tracks whose four fields are strings, the type its functions
  declare for them (\<^verbatim>\<open>artist: str, title: str, cover_url: str\<close>, \<^verbatim>\<open>url: str\<close>). On such
  dictionaries Python's \<^verbatim>\<open>!=\<close> is inequality of the four fields.
\<close>

record track =
  title :: string
  artist :: string
  album :: string
  cover :: string

type_synonym bytes = "char list"

text \<open>
  What the script does to the outside world, in the order it does it. \<open>Metadata\<close> is the
  request to the admin endpoint with its query parameters (its answer only changes what
  is logged); the file events are the calls made on the temp file and the cover file,
  also when the call raises. Log lines and the temporary WAV file of a capture are not
  part of the trace.
\<close>

datatype event =
    Metadata "(string \<times> string) list"
  | Sleep nat
  | Capture
  | Recognize
  | Urlopen string
  | OpenTmp
  | Write bytes
  | Flush
  | Fsync
  | Replace
  | Unlink
  | Remove

text \<open>
  The variables of \<^verbatim>\<open>main\<close> (\<open>last_track\<close>, \<open>prev_listeners\<close>), the two files the script
  owns (\<^verbatim>\<open>COVER_LOCAL_PATH + ".tmp"\<close> and \<^verbatim>\<open>COVER_LOCAL_PATH\<close>; \<open>None\<close> is an absent file)
  and the trace so far.
\<close>

record state =
  last_track :: "track option"
  prev_listeners :: int
  tmp_file :: "bytes option"
  cover_file :: "bytes option"
  trace :: "event list"

text \<open>
  What a call gives: \<open>Inr\<close> with its value when it returns, \<open>Inl\<close> with the exception and
  the state reached when it raises. Nothing in \<^verbatim>\<open>main\<close> catches an exception, so one that
  leaves a function ends the process in that state.
\<close>

type_synonym 'a result = "(py_error \<times> state) + 'a"

definition emit :: "event list \<Rightarrow> state \<Rightarrow> state" where
  "emit es s = s\<lparr>trace := trace s @ es\<rparr>"

definition sleep :: "nat \<Rightarrow> state \<Rightarrow> state" where
  "sleep n s = emit [Sleep n] s"

section \<open>Metadata publisher\<close>

definition song_of :: "string \<Rightarrow> string \<Rightarrow> string" where
  "song_of artist' title' = (if title' \<noteq> [] then artist' @ '' - '' @ title' else artist')"

definition metadata_params :: "string \<Rightarrow> string \<Rightarrow> string \<Rightarrow> (string \<times> string) list" where
  "metadata_params artist' title' cover_url =
     [(''mount'', ICECAST_MOUNT), (''mode'', ''updinfo''), (''song'', song_of artist' title')]
     @ (if cover_url \<noteq> [] then [(''url'', cover_url)] else [])"

text \<open>
  \<^verbatim>\<open>update_icecast_metadata\<close>. \<^verbatim>\<open>urlencode\<close> runs before the \<^verbatim>\<open>try\<close> block and encodes every
  parameter value as UTF-8: a value with a surrogate makes it raise, and no request is
  sent. Otherwise the request is sent; whatever its answer, the function returns.
\<close>

definition update_icecast_metadata :: "string \<Rightarrow> string \<Rightarrow> string \<Rightarrow> state \<Rightarrow> state result" where
  "update_icecast_metadata artist' title' cover_url s =
     (let params = metadata_params artist' title' cover_url in
      if list_ex (\<lambda>kv. has_surrogate (snd kv)) params then Inl (UnicodeEncodeError, s)
      else Inr (emit [Metadata params] s))"

section \<open>Cover art publisher\<close>

text \<open>
  What can go wrong inside the \<^verbatim>\<open>try\<close> block of \<^verbatim>\<open>download_cover\<close>. The download:
  \<^verbatim>\<open>Request\<close> rejects the URL, or \<^verbatim>\<open>urlopen\<close> or \<^verbatim>\<open>read\<close> raises (\<open>NoBody\<close>), or the body
  arrives. The file operations: one of them raises; \<open>WriteFails n\<close> and \<open>FlushFails n\<close>
  leave the first \<open>n\<close> bytes in the temp file. And what can go wrong in the \<^verbatim>\<open>except\<close>
  branch, where nothing is caught: \<^verbatim>\<open>os.unlink\<close> raises.
\<close>

datatype fetch = RequestRejected | NoBody | Body bytes

datatype fs_fault = NoFault | OpenFails | WriteFails nat | FlushFails nat | FsyncFails | ReplaceFails

record download_env =
  fetched :: fetch
  fault :: fs_fault
  unlink_raises :: bool

text \<open>
  The \<^verbatim>\<open>except\<close> branch: remove the temp file if it exists, return \<^verbatim>\<open>False\<close>. When the
  removal raises, the exception leaves \<^verbatim>\<open>download_cover\<close> and the temp file stays.
\<close>

definition download_failed :: "download_env \<Rightarrow> state \<Rightarrow> (bool \<times> state) result" where
  "download_failed env s =
     (if tmp_file s \<noteq> None
      then (if unlink_raises env then Inl (OSError, emit [Unlink] s)
            else Inr (False, emit [Unlink] (s\<lparr>tmp_file := None\<rparr>)))
      else Inr (False, s))"

definition download_cover :: "string \<Rightarrow> download_env \<Rightarrow> state \<Rightarrow> (bool \<times> state) result" where
  "download_cover url env s =
     (if url = [] then Inr (False, s)
      else
        (case fetched env of
           RequestRejected \<Rightarrow> download_failed env s
         | NoBody \<Rightarrow> download_failed env (emit [Urlopen url] s)
         | Body data \<Rightarrow>
             (let s1 = emit [Urlopen url] s in
              case fault env of
                OpenFails \<Rightarrow> download_failed env (emit [OpenTmp] s1)
              | WriteFails n \<Rightarrow>
                  download_failed env
                    (emit [OpenTmp, Write data] (s1\<lparr>tmp_file := Some (take n data)\<rparr>))
              | FlushFails n \<Rightarrow>
                  download_failed env
                    (emit [OpenTmp, Write data, Flush] (s1\<lparr>tmp_file := Some (take n data)\<rparr>))
              | FsyncFails \<Rightarrow>
                  download_failed env
                    (emit [OpenTmp, Write data, Flush, Fsync] (s1\<lparr>tmp_file := Some data\<rparr>))
              | ReplaceFails \<Rightarrow>
                  download_failed env
                    (emit [OpenTmp, Write data, Flush, Fsync, Replace]
                       (s1\<lparr>tmp_file := Some data\<rparr>))
              | NoFault \<Rightarrow>
                  Inr (True,
                       emit [OpenTmp, Write data, Flush, Fsync, Replace]
                         (s1\<lparr>tmp_file := None, cover_file := Some data\<rparr>)))))"

text \<open>
  \<^verbatim>\<open>clear_cover\<close>: if the cover file exists it is removed; a removal that raises is logged
  and nothing else happens.
\<close>

definition clear_cover :: "bool \<Rightarrow> state \<Rightarrow> state" where
  "clear_cover remove_raises s =
     (if cover_file s \<noteq> None
      then (if remove_raises then emit [Remove] s else emit [Remove] (s\<lparr>cover_file := None\<rparr>))
      else s)"

section \<open>Handling a recognised track\<close>

text \<open>
  \<^verbatim>\<open>handle_track\<close> has no \<^verbatim>\<open>try\<close>: an exception of \<^verbatim>\<open>download_cover\<close> leaves it before the
  metadata update, and an exception of the update leaves it too.
\<close>

definition handle_track :: "track \<Rightarrow> download_env \<Rightarrow> state \<Rightarrow> state result" where
  "handle_track t env s =
     (case (if cover t \<noteq> [] then download_cover (cover t) env s else Inr (False, s)) of
        Inl x \<Rightarrow> Inl x
      | Inr (ok, s1) \<Rightarrow>
          update_icecast_metadata (artist t) (title t) (if ok then COVER_PUBLIC_URL else []) s1)"

section \<open>Main loop\<close>

text \<open>
  What the outside world answers during one capture-and-recognise pass: whether
  \<^verbatim>\<open>capture_audio\<close> succeeded, what \<^verbatim>\<open>recognize\<close> returned (\<open>None\<close> is the empty
  dictionary), how the cover download goes and whether removing the cover file raises.
\<close>

record pass_env =
  captured :: bool
  recognized :: "track option"
  download :: download_env
  remove_raises :: bool

text \<open>One iteration: the status document, the pass on activation and the regular pass.\<close>

record cycle_env =
  stats :: "py_error + json"
  immediate :: pass_env
  regular :: pass_env

text \<open>The pass inside \<^verbatim>\<open>if prev_listeners == 0 and listeners >= 1\<close>, after the settle delay.\<close>

definition immediate_pass :: "pass_env \<Rightarrow> state \<Rightarrow> state result" where
  "immediate_pass p s =
     (let s1 = emit [Capture] s in
      if captured p then
        (let s2 = emit [Recognize] s1; tr = recognized p in
         if tr \<noteq> None \<and> tr \<noteq> last_track s2 then
           handle_track (the tr) (download p) (s2\<lparr>last_track := tr\<rparr>)
         else if tr = None then
           update_icecast_metadata ''Unknown'' [] []
             (clear_cover (remove_raises p) (s2\<lparr>last_track := None\<rparr>))
         else Inr s2)
      else Inr s1)"

text \<open>The regular poll of every active iteration.\<close>

definition regular_pass :: "pass_env \<Rightarrow> state \<Rightarrow> state result" where
  "regular_pass p s =
     (let s1 = emit [Capture] s in
      if \<not> captured p then Inr s1
      else
        (let s2 = emit [Recognize] s1 in
         case recognized p of
           Some t \<Rightarrow>
             if Some t \<noteq> last_track s2 then
               handle_track t (download p) (s2\<lparr>last_track := Some t\<rparr>)
             else Inr s2
         | None \<Rightarrow>
             update_icecast_metadata ''Unknown'' [] []
               (clear_cover (remove_raises p) (s2\<lparr>last_track := None\<rparr>))))"

definition activation :: "pass_env \<Rightarrow> state \<Rightarrow> state result" where
  "activation p s =
     (case update_icecast_metadata ''Detecting...'' [] [] s of
        Inl x \<Rightarrow> Inl x
      | Inr s1 \<Rightarrow> immediate_pass p (sleep 5 s1))"

text \<open>
  The body of \<^verbatim>\<open>while True\<close>. The comparison \<^verbatim>\<open>listeners < 1\<close> raises \<^verbatim>\<open>TypeError\<close> in
  \<^verbatim>\<open>main\<close> when the probe returned something that is not a number.
\<close>

definition main_iteration :: "cycle_env \<Rightarrow> state \<Rightarrow> state result" where
  "main_iteration env s =
     (case as_num (get_listener_count (stats env)) of
        None \<Rightarrow> Inl (TypeError, s)
      | Some listeners \<Rightarrow>
          if listeners < 1 then
            (case (if prev_listeners s \<ge> 1
                   then update_icecast_metadata ''Paused'' [] [] s else Inr s) of
               Inl x \<Rightarrow> Inl x
             | Inr s1 \<Rightarrow> Inr (sleep 15 (s1\<lparr>prev_listeners := 0\<rparr>)))
          else
            (case (if prev_listeners s = 0 \<and> listeners \<ge> 1
                   then activation (immediate env) s else Inr s) of
               Inl x \<Rightarrow> Inl x
             | Inr s1 \<Rightarrow>
                 (case regular_pass (regular env) (s1\<lparr>prev_listeners := listeners\<rparr>) of
                    Inl x \<Rightarrow> Inl x
                  | Inr s2 \<Rightarrow> Inr (sleep POLL_INTERVAL s2))))"

text \<open>
  The loop never ends by itself; \<open>main_loop\<close> runs it for as many iterations as the
  outside world is described for, and stops where an iteration raises.
\<close>

fun main_loop :: "cycle_env list \<Rightarrow> state \<Rightarrow> state result" where
  "main_loop [] s = Inr s"
| "main_loop (env # envs) s =
     (case main_iteration env s of
        Inl x \<Rightarrow> Inl x
      | Inr s' \<Rightarrow> main_loop envs s')"

text \<open>The state in which \<^verbatim>\<open>main\<close> enters the loop, over given files.\<close>

definition initial :: "bytes option \<Rightarrow> bytes option \<Rightarrow> state" where
  "initial tmp cov =
     \<lparr>last_track = None, prev_listeners = 0, tmp_file = tmp, cover_file = cov, trace = []\<rparr>"

section \<open>Notions used in the statements\<close>

text \<open>The source entry of a status document, when the document has one.\<close>

definition source_of :: "json \<Rightarrow> json option" where
  "source_of data =
     (case data of
        JDict d \<Rightarrow> (case map_of d ''icestats'' of
                      Some (JDict i) \<Rightarrow> map_of i ''source''
                    | _ \<Rightarrow> None)
      | _ \<Rightarrow> None)"

text \<open>A source object: a dictionary whose listener count, if it has one, is an integer.\<close>

definition source_object :: "json \<Rightarrow> bool" where
  "source_object src =
     (case src of
        JDict kv \<Rightarrow> (case map_of kv ''listeners'' of
                       None \<Rightarrow> True
                     | Some (JInt n) \<Rightarrow> True
                     | _ \<Rightarrow> False)
      | _ \<Rightarrow> False)"

text \<open>The listener count a source object carries, 0 when it carries none.\<close>

definition present_count :: "json \<Rightarrow> int" where
  "present_count src =
     (case src of
        JDict kv \<Rightarrow> (case map_of kv ''listeners'' of Some (JInt n) \<Rightarrow> n | _ \<Rightarrow> 0)
      | _ \<Rightarrow> 0)"

definition three_sources :: "json list" where
  "three_sources =
     [JDict [(''listeners'', JInt 2)], JDict [(''listenurl'', JStr ''/a'')],
      JDict [(''listeners'', JInt 5)]]"

definition status_document :: "json \<Rightarrow> json" where
  "status_document src =
     JDict [(''icestats'', JDict [(''host'', JStr ''localhost''), (''source'', src)])]"

text \<open>The song string as the specification words it: joined when both parts are present.\<close>

definition song_as_claimed :: "string \<Rightarrow> string \<Rightarrow> string" where
  "song_as_claimed artist' title' =
     (if artist' \<noteq> [] \<and> title' \<noteq> [] then artist' @ '' - '' @ title' else artist')"

text \<open>The events added to the trace between two states.\<close>

definition events_since :: "state \<Rightarrow> state \<Rightarrow> event list" where
  "events_since s s' = drop (length (trace s)) (trace s')"

text \<open>The metadata updates among some events, and the cover URLs fetched.\<close>

fun publishes :: "event list \<Rightarrow> (string \<times> string) list list" where
  "publishes [] = []"
| "publishes (Metadata ps # es) = ps # publishes es"
| "publishes (e # es) = publishes es"

fun downloads :: "event list \<Rightarrow> string list" where
  "downloads [] = []"
| "downloads (Urlopen u # es) = u # downloads es"
| "downloads (e # es) = downloads es"

text \<open>The state a call ends in, returned or raised.\<close>

definition state_of :: "state result \<Rightarrow> state" where
  "state_of r = (case r of Inl x \<Rightarrow> snd x | Inr s \<Rightarrow> s)"

text \<open>The download meets no obstacle: the body arrives and no file operation raises.\<close>

definition arrives :: "download_env \<Rightarrow> bool" where
  "arrives env = (case fetched env of Body data \<Rightarrow> fault env = NoFault | _ \<Rightarrow> False)"




text \<open>
  A state with a temp file left behind; a download that meets no obstacle; a download
  whose rename is refused and whose temp file cannot be removed either.
\<close>

definition stale_tmp :: state where
  "stale_tmp = \<lparr>last_track = None, prev_listeners = 0, tmp_file = Some ''partial'',
                 cover_file = Some ''old'', trace = []\<rparr>"

definition good_download :: download_env where
  "good_download = \<lparr>fetched = Body ''new'', fault = NoFault, unlink_raises = False\<rparr>"

definition stuck_download :: download_env where
  "stuck_download = \<lparr>fetched = Body ''new'', fault = ReplaceFails, unlink_raises = True\<rparr>"

text \<open>The cover URL that \<^verbatim>\<open>handle_track\<close> passes on to the metadata update.\<close>

definition cover_url_for :: "track \<Rightarrow> download_env \<Rightarrow> string" where
  "cover_url_for t env = (if cover t \<noteq> [] \<and> arrives env then COVER_PUBLIC_URL else [])"

text \<open>The listener count an iteration reads, and an iteration without listeners.\<close>

definition listeners_of :: "cycle_env \<Rightarrow> int option" where
  "listeners_of env = as_num (get_listener_count (stats env))"

definition idle :: "cycle_env \<Rightarrow> bool" where
  "idle env = (case listeners_of env of None \<Rightarrow> False | Some n \<Rightarrow> n < 1)"

text \<open>The track of the specification's end-to-end example.\<close>

definition echoes :: track where
  "echoes = \<lparr>title = ''Echoes'', artist = ''Pink Floyd'', album = ''Meddle'',
               cover = ''http://x/cover.jpg''\<rparr>"

text \<open>
  Examples: a status document with one source and \<open>n\<close> listeners; a pass in which the
  capture succeeds, recognition returns \<open>r\<close> and nothing fails; an iteration made of
  these; the state while the example track is playing to one listener.
\<close>

definition listeners_doc :: "int \<Rightarrow> py_error + json" where
  "listeners_doc n = Inr (status_document (JDict [(''listeners'', JInt n)]))"

definition hears :: "track option \<Rightarrow> pass_env" where
  "hears r = \<lparr>captured = True, recognized = r, download = good_download, remove_raises = False\<rparr>"

definition cycle :: "int \<Rightarrow> track option \<Rightarrow> track option \<Rightarrow> cycle_env" where
  "cycle n r1 r2 = \<lparr>stats = listeners_doc n, immediate = hears r1, regular = hears r2\<rparr>"

definition playing :: state where
  "playing = \<lparr>last_track = Some echoes, prev_listeners = 1, tmp_file = None,
               cover_file = Some ''old'', trace = []\<rparr>"

text \<open>
  The album as the specification words it: the value of the first metadata entry, over
  all sections in order and the entries of each in order, whose label is \<^verbatim>\<open>album\<close>
  whatever the case of its letters; \<^verbatim>\<open>Unknown\<close> when there is none.
\<close>

definition label_is_album :: "json \<Rightarrow> bool" where
  "label_is_album meta =
     (case meta of
        JDict kv \<Rightarrow> (case map_of kv ''title'' of
                       Some (JStr l) \<Rightarrow> map lower_char l = ''album''
                     | _ \<Rightarrow> False)
      | _ \<Rightarrow> False)"

definition text_of :: "json \<Rightarrow> json" where
  "text_of meta =
     (case meta of
        JDict kv \<Rightarrow> (case map_of kv ''text'' of None \<Rightarrow> JStr ''Unknown'' | Some v \<Rightarrow> v)
      | _ \<Rightarrow> JStr ''Unknown'')"

definition entries_of :: "json \<Rightarrow> json list" where
  "entries_of section =
     (case section of
        JDict kv \<Rightarrow> (case map_of kv ''metadata'' of Some (JList ms) \<Rightarrow> ms | _ \<Rightarrow> [])
      | _ \<Rightarrow> [])"

definition first_album :: "json list \<Rightarrow> json option" where
  "first_album metas =
     (case filter label_is_album metas of [] \<Rightarrow> None | m # _ \<Rightarrow> Some (text_of m))"

definition album_first_match :: "json list \<Rightarrow> json" where
  "album_first_match sections =
     (case first_album (concat (map entries_of sections)) of
        None \<Rightarrow> JStr ''Unknown''
      | Some a \<Rightarrow> a)"

text \<open>
  Well-formed metadata: an entry is a dictionary whose label, if it has one, is a string;
  a section is a dictionary whose metadata, if it has any, is a list of entries.
\<close>

definition entry_ok :: "json \<Rightarrow> bool" where
  "entry_ok meta =
     (case meta of
        JDict kv \<Rightarrow> (case map_of kv ''title'' of
                       None \<Rightarrow> True
                     | Some (JStr l) \<Rightarrow> True
                     | _ \<Rightarrow> False)
      | _ \<Rightarrow> False)"

definition section_ok :: "json \<Rightarrow> bool" where
  "section_ok section =
     (case section of
        JDict kv \<Rightarrow> (case map_of kv ''metadata'' of
                       None \<Rightarrow> True
                     | Some (JList ms) \<Rightarrow> list_all entry_ok ms
                     | _ \<Rightarrow> False)
      | _ \<Rightarrow> False)"

text \<open>A response in which two sections carry an album entry.\<close>

definition two_sections :: "json list" where
  "two_sections =
     [JDict [(''type'', JStr ''SONG''),
             (''metadata'', JList [JDict [(''title'', JStr ''Album''), (''text'', JStr ''Meddle'')],
                                   JDict [(''title'', JStr ''Label''), (''text'', JStr ''Harvest'')]])],
      JDict [(''type'', JStr ''RELATED''),
             (''metadata'', JList [JDict [(''title'', JStr ''Album''), (''text'', JStr ''Relics'')]])]]"

definition two_album_response :: json where
  "two_album_response =
     JDict [(''track'', JDict [(''title'', JStr ''Echoes''), (''subtitle'', JStr ''Pink Floyd''),
                              (''sections'', JList two_sections)])]"

text \<open>A section with an album entry.\<close>

definition has_album :: "json \<Rightarrow> bool" where
  "has_album section = (first_album (entries_of section) \<noteq> None)"


text \<open>
  Nothing published and no variable of \<^verbatim>\<open>main\<close> changed between two states: the trace has
  only grown, by events that are not metadata updates.
\<close>

definition quiet :: "state \<Rightarrow> state \<Rightarrow> bool" where
  "quiet s s' =
     (trace s' = trace s @ events_since s s' \<and> publishes (events_since s s') = [] \<and>
      last_track s' = last_track s \<and> prev_listeners s' = prev_listeners s)"

text \<open>A title that is one lone surrogate, U+D800, and the example track with that title.\<close>

definition lone_surrogate :: string where
  "lone_surrogate = [CHR 0xED, CHR 0xA0, CHR 0x80]"

definition unencodable :: track where
  "unencodable = \<lparr>title = lone_surrogate, artist = ''Pink Floyd'', album = ''Meddle'',
                    cover = []\<rparr>"

section \<open>Traces\<close>

lemma publishes_append: "publishes (xs @ ys) = publishes xs @ publishes ys"
  by (induction xs rule: publishes.induct) simp_all

lemma downloads_append: "downloads (xs @ ys) = downloads xs @ downloads ys"
  by (induction xs rule: downloads.induct) simp_all

lemma events_since_emit: "events_since s (emit es s) = es"
  by (simp add: events_since_def emit_def)

section \<open>Listener probe: the count\<close>

lemma sum_listeners_source_objects:
  "list_all source_object ss \<Longrightarrow>
     sum_listeners ss acc = Inr (acc + sum_list (map present_count ss))"
proof (induction ss arbitrary: acc)
  case Nil
  show ?case by simp
next
  case (Cons s ss)
  from Cons.prems have d: "source_object s" and rest: "list_all source_object ss"
    by simp_all
  from d have "\<exists>n. py_get s ''listeners'' (JInt 0) = Inr (JInt n) \<and> present_count s = n"
    by (auto simp: source_object_def present_count_def split: json.splits option.splits)
  then obtain n where "py_get s ''listeners'' (JInt 0) = Inr (JInt n)" "present_count s = n"
    by blast
  with Cons.IH [OF rest] show ?case by (simp add: add.assoc)
qed

lemma source_of_get:
  "source_of data = Some src \<Longrightarrow>
     \<exists>i. py_get data ''icestats'' (JDict []) = Inr i \<and> py_get i ''source'' (JDict []) = Inr src"
  by (auto simp: source_of_def split: json.splits option.splits)

text \<open>
  Claim C2. Whatever went wrong while fetching or reading the status document, the probe
  returns 0: it has no way to raise. On a document whose source is one source object it
  returns that object's listener count, 0 when the object has none; on a document whose
  source is a list of source objects it returns the sum of their counts, an object
  without a count adding 0.
\<close>

theorem get_listener_count_total:
  "get_listener_count (Inl e) = JInt 0 \<and>
   (listener_count_of data = Inl e \<longrightarrow> get_listener_count (Inr data) = JInt 0) \<and>
   (source_of data = Some (JDict kv) \<and> source_object (JDict kv) \<longrightarrow>
      get_listener_count (Inr data) = JInt (present_count (JDict kv))) \<and>
   (source_of data = Some (JList ss) \<and> list_all source_object ss \<longrightarrow>
      get_listener_count (Inr data) = JInt (sum_list (map present_count ss)))"
proof (intro conjI impI)
  show "get_listener_count (Inl e) = JInt 0"
    by (simp add: get_listener_count_def)
next
  assume "listener_count_of data = Inl e"
  then show "get_listener_count (Inr data) = JInt 0"
    by (simp add: get_listener_count_def)
next
  assume a: "source_of data = Some (JDict kv) \<and> source_object (JDict kv)"
  then obtain i where "py_get data ''icestats'' (JDict []) = Inr i"
    and "py_get i ''source'' (JDict []) = Inr (JDict kv)"
    using source_of_get by blast
  moreover from a
  have "(case map_of kv ''listeners'' of None \<Rightarrow> JInt 0 | Some v \<Rightarrow> v)
          = JInt (present_count (JDict kv))"
    by (auto simp: source_object_def present_count_def split: option.splits json.splits)
  ultimately show "get_listener_count (Inr data) = JInt (present_count (JDict kv))"
    by (simp add: get_listener_count_def listener_count_of_def)
next
  assume a: "source_of data = Some (JList ss) \<and> list_all source_object ss"
  then obtain i where "py_get data ''icestats'' (JDict []) = Inr i"
    and "py_get i ''source'' (JDict []) = Inr (JList ss)"
    using source_of_get by blast
  moreover from a have "sum_listeners ss 0 = Inr (sum_list (map present_count ss))"
    using sum_listeners_source_objects [of ss 0] by simp
  ultimately show "get_listener_count (Inr data) = JInt (sum_list (map present_count ss))"
    by (simp add: get_listener_count_def listener_count_of_def)
qed

theorem get_listener_count_total_witness:
  "get_listener_count (Inl NetworkError) = JInt 0 \<and>
   listener_count_of (JList []) = Inl AttributeError \<and>
   get_listener_count (Inr (JList [])) = JInt 0 \<and>
   source_of (status_document (JDict [(''listeners'', JInt 3)]))
     = Some (JDict [(''listeners'', JInt 3)]) \<and>
   source_object (JDict [(''listeners'', JInt 3)]) \<and>
   get_listener_count (Inr (status_document (JDict [(''listeners'', JInt 3)]))) = JInt 3 \<and>
   source_of (status_document (JList three_sources)) = Some (JList three_sources) \<and>
   list_all source_object three_sources \<and>
   get_listener_count (Inr (status_document (JList three_sources))) = JInt 7"
proof -
  have h1: "listener_count_of (JList []) = Inl AttributeError"
    by (simp add: listener_count_of_def)
  have h2: "source_of (status_document (JDict [(''listeners'', JInt 3)]))
              = Some (JDict [(''listeners'', JInt 3)])"
    by (simp add: source_of_def status_document_def)
  have h3: "source_object (JDict [(''listeners'', JInt 3)])"
    by (simp add: source_object_def)
  have h4: "source_of (status_document (JList three_sources)) = Some (JList three_sources)"
    by (simp add: source_of_def status_document_def)
  have h5: "list_all source_object three_sources"
    by (simp add: three_sources_def source_object_def)
  have c: "sum_list (map present_count three_sources) = 7"
    by (simp add: three_sources_def present_count_def)
  have d: "present_count (JDict [(''listeners'', JInt 3)]) = 3"
    by (simp add: present_count_def)
  from get_listener_count_total [of NetworkError "JList []"] h1
  have a1: "get_listener_count (Inl NetworkError) = JInt 0"
    and a2: "get_listener_count (Inr (JList [])) = JInt 0"
    by (simp_all add: get_listener_count_def)
  from get_listener_count_total
         [of NetworkError "status_document (JDict [(''listeners'', JInt 3)])"
             "[(''listeners'', JInt 3)]"] h2 h3 d
  have a3: "get_listener_count (Inr (status_document (JDict [(''listeners'', JInt 3)]))) = JInt 3"
    by simp
  from get_listener_count_total
         [of NetworkError "status_document (JList three_sources)" _ three_sources] h4 h5 c
  have a4: "get_listener_count (Inr (status_document (JList three_sources))) = JInt 7"
    by simp
  from a1 a2 a3 a4 h1 h2 h3 h4 h5 show ?thesis by simp
qed

section \<open>Recogniser client: the album\<close>

text \<open>
  Within one section the first entry labelled \<^verbatim>\<open>album\<close> wins; over the sections the last
  section that has such an entry wins, since the \<^verbatim>\<open>break\<close> ends the scan of one section
  only.
\<close>

lemma scan_metadata_first:
  "list_all entry_ok metas \<Longrightarrow>
     scan_metadata metas a = Inr (case first_album metas of None \<Rightarrow> a | Some x \<Rightarrow> x)"
proof (induction metas)
  case Nil
  show ?case by (simp add: first_album_def)
next
  case (Cons m metas)
  from Cons.prems have ok: "entry_ok m" and rest: "list_all entry_ok metas" by simp_all
  from ok obtain kv where kv: "m = JDict kv" by (cases m) (simp_all add: entry_ok_def)
  show ?case
  proof (cases "label_is_album m")
    case True
    with kv show ?thesis
      by (auto simp: label_is_album_def first_album_def text_of_def split: option.splits json.splits)
  next
    case False
    with kv ok have "\<exists>l. py_get m ''title'' (JStr []) = Inr (JStr l) \<and> map lower_char l \<noteq> ''album''"
      by (auto simp: label_is_album_def entry_ok_def split: option.splits json.splits)
    with False Cons.IH [OF rest] show ?thesis
      by (auto simp: first_album_def)
  qed
qed

lemma scan_sections_last:
  "list_all section_ok sections \<Longrightarrow>
     scan_sections sections a
       = Inr (fold (\<lambda>section acc. case first_album (entries_of section) of
                                     None \<Rightarrow> acc
                                   | Some x \<Rightarrow> x) sections a)"
proof (induction sections arbitrary: a)
  case Nil
  show ?case by simp
next
  case (Cons sec sections)
  from Cons.prems have ok: "section_ok sec" and rest: "list_all section_ok sections" by simp_all
  from ok have "\<exists>ms. py_get sec ''metadata'' (JList []) = Inr (JList ms) \<and> entries_of sec = ms
      \<and> list_all entry_ok ms"
    by (auto simp: section_ok_def entries_of_def split: json.splits option.splits)
  then obtain ms where ms: "py_get sec ''metadata'' (JList []) = Inr (JList ms)"
     "entries_of sec = ms" "list_all entry_ok ms" by blast
  from scan_metadata_first [OF ms(3), of a] ms Cons.IH [OF rest]
  show ?case by simp
qed

text \<open>
  So the album is the first match over all sections whenever at most one section has an
  album entry.
\<close>

lemma first_album_append:
  "first_album (xs @ ys) = (case first_album xs of None \<Rightarrow> first_album ys | Some a \<Rightarrow> Some a)"
  by (simp add: first_album_def split: list.splits)

lemma fold_no_album:
  "filter has_album sections = [] \<Longrightarrow>
     fold (\<lambda>section acc. case first_album (entries_of section) of
                            None \<Rightarrow> acc | Some x \<Rightarrow> x) sections a = a \<and>
     first_album (concat (map entries_of sections)) = None"
proof (induction sections)
  case Nil
  show ?case by (simp add: first_album_def)
next
  case (Cons sec sections)
  from Cons.prems have "\<not> has_album sec" and rest: "filter has_album sections = []"
    by (auto split: if_splits)
  then have "first_album (entries_of sec) = None" by (simp add: has_album_def)
  with Cons.IH [OF rest] show ?case by (simp add: first_album_append)
qed

lemma fold_one_album:
  "length (filter has_album sections) \<le> 1 \<Longrightarrow>
     fold (\<lambda>section acc. case first_album (entries_of section) of
                            None \<Rightarrow> acc | Some x \<Rightarrow> x) sections a
       = (case first_album (concat (map entries_of sections)) of None \<Rightarrow> a | Some x \<Rightarrow> x)"
proof (induction sections arbitrary: a)
  case Nil
  show ?case by (simp add: first_album_def)
next
  case (Cons sec sections)
  show ?case
  proof (cases "first_album (entries_of sec)")
    case None
    then have "\<not> has_album sec" by (simp add: has_album_def)
    with Cons.prems have "length (filter has_album sections) \<le> 1"
      by simp
    from Cons.IH [OF this] None show ?thesis by (simp add: first_album_append)
  next
    case (Some x)
    then have "has_album sec" by (simp add: has_album_def)
    with Cons.prems have "filter has_album sections = []"
      by simp
    from fold_no_album [OF this, of x] Some show ?thesis by (simp add: first_album_append)
  qed
qed

lemma album_one_section:
  assumes "list_all section_ok sections" and "length (filter has_album sections) \<le> 1"
  shows "scan_sections sections (JStr ''Unknown'') = Inr (album_first_match sections)"
  using scan_sections_last [OF assms(1), of "JStr ''Unknown''"] fold_one_album [OF assms(2), of "JStr ''Unknown''"]
  by (simp add: album_first_match_def)

text \<open>
  Claim C1 does not hold of the code. On a response whose first section gives the album
  \<^verbatim>\<open>Meddle\<close> and whose second section gives the album \<^verbatim>\<open>Relics\<close>, \<^verbatim>\<open>recognize\<close> returns the
  album \<^verbatim>\<open>Relics\<close>, where the first match over all sections is \<^verbatim>\<open>Meddle\<close>.
\<close>

theorem album_of_later_section:
  "recognize (Inr two_album_response)
     = JDict [(''title'', JStr ''Echoes''), (''artist'', JStr ''Pink Floyd''),
              (''album'', JStr ''Relics''), (''cover'', JStr [])] \<and>
   album_first_match two_sections = JStr ''Meddle''"
  by code_simp

section \<open>Metadata publisher: the song string\<close>

lemma has_surrogate_Cons:
  "of_char c \<noteq> (237::nat) \<Longrightarrow> has_surrogate (c # t) = has_surrogate t"
  by (cases t) simp_all

lemma has_surrogate_append_space:
  "has_surrogate (a @ CHR '' '' # u) = (has_surrogate a \<or> has_surrogate u)"
proof (induction a)
  case Nil
  show ?case by (simp add: has_surrogate_Cons)
next
  case (Cons x xs)
  then show ?case by (cases xs) (simp_all add: has_surrogate_Cons)
qed

lemma has_surrogate_song:
  "has_surrogate (song_of a t) = (has_surrogate a \<or> has_surrogate t)"
proof (cases "t = []")
  case True
  then show ?thesis by (simp add: song_of_def)
next
  case False
  have "has_surrogate (a @ CHR '' '' # (''- '' @ t)) = (has_surrogate a \<or> has_surrogate (''- '' @ t))"
    by (rule has_surrogate_append_space)
  moreover have "has_surrogate (''- '' @ t) = has_surrogate t"
    by (simp add: has_surrogate_Cons)
  ultimately show ?thesis using False by (simp add: song_of_def)
qed

lemma update_icecast_metadata_returns:
  "update_icecast_metadata a t c s =
     (if has_surrogate a \<or> has_surrogate t \<or> has_surrogate c then Inl (UnicodeEncodeError, s)
      else Inr (emit [Metadata (metadata_params a t c)] s))"
proof -
  have "list_ex (\<lambda>kv. has_surrogate (snd kv)) (metadata_params a t c)
          = (has_surrogate (song_of a t) \<or> has_surrogate c)"
    by (simp add: metadata_params_def ICECAST_MOUNT_def)
  then show ?thesis
    by (auto simp add: update_icecast_metadata_def Let_def has_surrogate_song)
qed

text \<open>
  Claim C8, as the specification words it, fails when the artist is empty and the title
  is not: the code joins the two around the dash whenever the title is non-empty.
\<close>

theorem song_string_counterexample:
  "map_of (metadata_params [] ''Echoes'' []) ''song'' \<noteq> Some (song_as_claimed [] ''Echoes'')"
  by (simp add: metadata_params_def song_of_def song_as_claimed_def)

text \<open>
  Claim C8, amended. The metadata update, when it returns, has issued one request, with
  the parameters \<open>metadata_params\<close> builds; their song parameter is the artist, the dash
  and the title when the title is non-empty, and the artist alone when the title is
  empty, whatever the artist is.
\<close>

theorem song_string:
  "(update_icecast_metadata a t c s = Inr s' \<longrightarrow>
      trace s' = trace s @ [Metadata (metadata_params a t c)]) \<and>
   map_of (metadata_params a t c) ''song'' = Some (if t \<noteq> [] then a @ '' - '' @ t else a)"
  by (auto simp add: update_icecast_metadata_def emit_def metadata_params_def song_of_def Let_def
        split: if_splits)

theorem song_string_witness:
  "update_icecast_metadata ''Pink Floyd'' ''Echoes'' COVER_PUBLIC_URL playing
     = Inr (emit [Metadata (metadata_params ''Pink Floyd'' ''Echoes'' COVER_PUBLIC_URL)] playing) \<and>
   trace (emit [Metadata (metadata_params ''Pink Floyd'' ''Echoes'' COVER_PUBLIC_URL)] playing)
     = trace playing @ [Metadata (metadata_params ''Pink Floyd'' ''Echoes'' COVER_PUBLIC_URL)] \<and>
   map_of (metadata_params ''Pink Floyd'' ''Echoes'' COVER_PUBLIC_URL) ''song''
     = Some ''Pink Floyd - Echoes'' \<and>
   map_of (metadata_params ''Paused'' [] []) ''song'' = Some ''Paused''"
proof -
  have r: "update_icecast_metadata ''Pink Floyd'' ''Echoes'' COVER_PUBLIC_URL playing
     = Inr (emit [Metadata (metadata_params ''Pink Floyd'' ''Echoes'' COVER_PUBLIC_URL)] playing)"
    by (simp add: update_icecast_metadata_returns COVER_PUBLIC_URL_def)
  from song_string [of "''Pink Floyd''" "''Echoes''" COVER_PUBLIC_URL playing
                       "emit [Metadata (metadata_params ''Pink Floyd'' ''Echoes'' COVER_PUBLIC_URL)] playing"]
       song_string [of "''Paused''" "[]" "[]"] r
  show ?thesis by simp
qed

section \<open>Cover art publisher: success or clean failure\<close>





section \<open>Handling a recognised track\<close>

lemma quietI:
  "trace s' = trace s @ es \<Longrightarrow> publishes es = [] \<Longrightarrow> last_track s' = last_track s \<Longrightarrow>
     prev_listeners s' = prev_listeners s \<Longrightarrow> quiet s s'"
  by (simp add: quiet_def events_since_def)

lemma quietD:
  "quiet s s' \<Longrightarrow>
     \<exists>es. trace s' = trace s @ es \<and> publishes es = [] \<and> last_track s' = last_track s \<and>
          prev_listeners s' = prev_listeners s"
  by (auto simp: quiet_def)

lemma quiet_trans: "quiet s s1 \<Longrightarrow> quiet s1 s2 \<Longrightarrow> quiet s s2"
proof -
  assume "quiet s s1" and "quiet s1 s2"
  then obtain es fs where "trace s1 = trace s @ es" "publishes es = []"
    "trace s2 = trace s1 @ fs" "publishes fs = []"
    "last_track s2 = last_track s" "prev_listeners s2 = prev_listeners s"
    by (auto dest!: quietD)
  then show ?thesis
    by (intro quietI [where es = "es @ fs"]) (simp_all add: publishes_append)
qed

lemma download_failed_quiet:
  "case download_failed env z of
     Inl x \<Rightarrow> quiet z (snd x)
   | Inr r \<Rightarrow> quiet z (snd r) \<and> \<not> fst r"
proof (cases "tmp_file z")
  case None
  then show ?thesis
    by (simp add: download_failed_def quietI [where es = "[]"])
next
  case (Some b)
  then show ?thesis
    by (simp add: download_failed_def emit_def quietI [where es = "[Unlink]"])
qed

lemma download_failed_after:
  assumes "quiet s z"
  shows "case download_failed env z of
           Inl x \<Rightarrow> quiet s (snd x)
         | Inr r \<Rightarrow> quiet s (snd r) \<and> \<not> fst r"
  using download_failed_quiet [where env = env and z = z] assms
  by (auto split: sum.splits intro: quiet_trans)

lemma download_cover_quiet:
  "case download_cover url env s of
     Inl x \<Rightarrow> quiet s (snd x)
   | Inr r \<Rightarrow> quiet s (snd r) \<and> fst r = (url \<noteq> [] \<and> arrives env)"
proof (cases "url = []")
  case True
  then show ?thesis by (simp add: download_cover_def quietI [where es = "[]"])
next
  case False
  show ?thesis
  proof (cases "fetched env")
    case RequestRejected
    have "quiet s s" by (simp add: quietI [where es = "[]"])
    from download_failed_after [OF this, where env = env] False RequestRejected show ?thesis
      by (auto simp: download_cover_def arrives_def split: sum.splits)
  next
    case NoBody
    have "quiet s (emit [Urlopen url] s)"
      by (simp add: emit_def quietI [where es = "[Urlopen url]"])
    from download_failed_after [OF this, where env = env] False NoBody show ?thesis
      by (auto simp: download_cover_def arrives_def split: sum.splits)
  next
    case (Body data)
    let ?s1 = "emit [Urlopen url] s"
    show ?thesis
    proof (cases "fault env")
      case NoFault
      with False Body show ?thesis
        by (simp add: download_cover_def Let_def arrives_def emit_def
              quietI [where es = "[Urlopen url, OpenTmp, Write data, Flush, Fsync, Replace]"])
    next
      case OpenFails
      have "quiet s (emit [OpenTmp] ?s1)"
        by (simp add: emit_def quietI [where es = "[Urlopen url, OpenTmp]"])
      from download_failed_after [OF this, where env = env] False Body OpenFails show ?thesis
        by (auto simp: download_cover_def Let_def arrives_def split: sum.splits)
    next
      case (WriteFails n)
      have "quiet s (emit [OpenTmp, Write data] (?s1\<lparr>tmp_file := Some (take n data)\<rparr>))"
        by (simp add: emit_def quietI [where es = "[Urlopen url, OpenTmp, Write data]"])
      from download_failed_after [OF this, where env = env] False Body WriteFails show ?thesis
        by (auto simp: download_cover_def Let_def arrives_def split: sum.splits)
    next
      case (FlushFails n)
      have "quiet s (emit [OpenTmp, Write data, Flush] (?s1\<lparr>tmp_file := Some (take n data)\<rparr>))"
        by (simp add: emit_def quietI [where es = "[Urlopen url, OpenTmp, Write data, Flush]"])
      from download_failed_after [OF this, where env = env] False Body FlushFails show ?thesis
        by (auto simp: download_cover_def Let_def arrives_def split: sum.splits)
    next
      case FsyncFails
      have "quiet s (emit [OpenTmp, Write data, Flush, Fsync] (?s1\<lparr>tmp_file := Some data\<rparr>))"
        by (simp add: emit_def
              quietI [where es = "[Urlopen url, OpenTmp, Write data, Flush, Fsync]"])
      from download_failed_after [OF this, where env = env] False Body FsyncFails show ?thesis
        by (auto simp: download_cover_def Let_def arrives_def split: sum.splits)
    next
      case ReplaceFails
      have "quiet s (emit [OpenTmp, Write data, Flush, Fsync, Replace]
                       (?s1\<lparr>tmp_file := Some data\<rparr>))"
        by (simp add: emit_def
              quietI [where es = "[Urlopen url, OpenTmp, Write data, Flush, Fsync, Replace]"])
      from download_failed_after [OF this, where env = env] False Body ReplaceFails show ?thesis
        by (auto simp: download_cover_def Let_def arrives_def split: sum.splits)
    qed
  qed
qed

text \<open>
  When \<^verbatim>\<open>handle_track\<close> returns, it has issued exactly one metadata update, the last thing
  it did, with the public cover URL if the download succeeded and none otherwise. When
  it raises, it has issued none.
\<close>

lemma handle_track_returns:
  assumes "handle_track t env s = Inr s'"
  shows "\<exists>es. trace s' = trace s @ es @ [Metadata (metadata_params (artist t) (title t)
                                             (cover_url_for t env))] \<and>
              publishes es = [] \<and> last_track s' = last_track s \<and>
              prev_listeners s' = prev_listeners s"
proof (cases "cover t = []")
  case True
  with assms show ?thesis
    by (auto simp: handle_track_def cover_url_for_def update_icecast_metadata_returns emit_def
        split: if_splits)
next
  case False
  from assms False obtain ok s1 where d: "download_cover (cover t) env s = Inr (ok, s1)"
    and u: "update_icecast_metadata (artist t) (title t) (if ok then COVER_PUBLIC_URL else []) s1
              = Inr s'"
    by (auto simp: handle_track_def split: sum.splits prod.splits)
  from download_cover_quiet [where url = "cover t" and env = env and s = s] d False
  have q: "quiet s s1" and ok: "ok = arrives env" by simp_all
  from u have s': "s' = emit [Metadata (metadata_params (artist t) (title t)
                                (if ok then COVER_PUBLIC_URL else []))] s1"
    by (simp add: update_icecast_metadata_returns split: if_splits)
  from quietD [OF q] obtain es where "trace s1 = trace s @ es" "publishes es = []"
    "last_track s1 = last_track s" "prev_listeners s1 = prev_listeners s" by blast
  with s' ok False show ?thesis by (simp add: emit_def cover_url_for_def)
qed

lemma handle_track_raises:
  assumes "handle_track t env s = Inl x"
  shows "quiet s (snd x)"
proof (cases "cover t = []")
  case True
  with assms show ?thesis
    by (auto simp: handle_track_def update_icecast_metadata_returns quietI [where es = "[]"]
        split: if_splits)
next
  case False
  show ?thesis
  proof (cases "download_cover (cover t) env s")
    case (Inl y)
    with download_cover_quiet [where url = "cover t" and env = env and s = s] assms False show ?thesis
      by (simp add: handle_track_def)
  next
    case (Inr r)
    with download_cover_quiet [where url = "cover t" and env = env and s = s] have q: "quiet s (snd r)" by simp
    from assms False Inr have "x = (UnicodeEncodeError, snd r)"
      by (cases r) (auto simp: handle_track_def update_icecast_metadata_returns split: if_splits)
    with q show ?thesis by simp
  qed
qed

lemma handle_track_publishes:
  assumes "handle_track t env s = Inr s'"
  shows "publishes (events_since s s')
           = [metadata_params (artist t) (title t) (cover_url_for t env)]"
  using handle_track_returns [OF assms]
  by (auto simp: events_since_def publishes_append)

lemma cover_url_for_url:
  "map_of (metadata_params a ti (cover_url_for t env)) ''url''
     = (if cover t \<noteq> [] \<and> arrives env then Some COVER_PUBLIC_URL else None)"
  by (simp add: cover_url_for_def metadata_params_def COVER_PUBLIC_URL_def)

text \<open>
  Claim C9 does not hold of the code. When the rename of the temp file is refused and
  its removal raises as well, the exception leaves \<^verbatim>\<open>download_cover\<close> and \<^verbatim>\<open>handle_track\<close>
  before any metadata update. When the title holds a lone surrogate, \<^verbatim>\<open>urlencode\<close>
  raises before the request is sent. In both runs \<^verbatim>\<open>handle_track\<close> issues no update.
\<close>

theorem handle_track_without_update:
  "handle_track echoes stuck_download stale_tmp
     = Inl (OSError,
            stale_tmp\<lparr>tmp_file := Some ''new'',
                      trace := [Urlopen ''http://x/cover.jpg'', OpenTmp, Write ''new'', Flush,
                                Fsync, Replace, Unlink]\<rparr>) \<and>
   publishes [Urlopen ''http://x/cover.jpg'', OpenTmp, Write ''new'', Flush, Fsync, Replace, Unlink]
     = [] \<and>
   handle_track unencodable good_download stale_tmp = Inl (UnicodeEncodeError, stale_tmp)"
  by (simp add: handle_track_def download_cover_def download_failed_def stuck_download_def
        good_download_def echoes_def unencodable_def lone_surrogate_def stale_tmp_def emit_def
        update_icecast_metadata_returns)

section \<open>Main loop: the passes and the iterations\<close>

lemma placeholder_update:
  "update_icecast_metadata ''Unknown'' [] [] s
     = Inr (emit [Metadata (metadata_params ''Unknown'' [] [])] s)"
  "update_icecast_metadata ''Paused'' [] [] s
     = Inr (emit [Metadata (metadata_params ''Paused'' [] [])] s)"
  "update_icecast_metadata ''Detecting...'' [] [] s
     = Inr (emit [Metadata (metadata_params ''Detecting...'' [] [])] s)"
  by (simp_all add: update_icecast_metadata_returns)

lemma track_eq_fields:
  "((t::track) = t') =
     (title t = title t' \<and> artist t = artist t' \<and> album t = album t' \<and> cover t = cover t')"
  by (cases t, cases t') simp

lemma regular_pass_no_capture: "\<not> captured p \<Longrightarrow> regular_pass p s = Inr (emit [Capture] s)"
  by (simp add: regular_pass_def)

lemma regular_pass_unchanged:
  "captured p \<Longrightarrow> recognized p = Some t \<Longrightarrow> last_track s = Some t \<Longrightarrow>
     regular_pass p s = Inr (emit [Capture, Recognize] s)"
  by (simp add: regular_pass_def Let_def emit_def)

lemma regular_pass_new:
  "captured p \<Longrightarrow> recognized p = Some t \<Longrightarrow> last_track s \<noteq> Some t \<Longrightarrow>
     regular_pass p s
       = handle_track t (download p) ((emit [Capture, Recognize] s)\<lparr>last_track := Some t\<rparr>)"
  by (auto simp add: regular_pass_def Let_def emit_def)

lemma regular_pass_no_match:
  "captured p \<Longrightarrow> recognized p = None \<Longrightarrow>
     regular_pass p s
       = Inr (emit [Metadata (metadata_params ''Unknown'' [] [])]
                (clear_cover (remove_raises p)
                   ((emit [Capture, Recognize] s)\<lparr>last_track := None\<rparr>)))"
  by (simp add: regular_pass_def Let_def emit_def placeholder_update)

lemma immediate_pass_regular: "immediate_pass p s = regular_pass p s"
  by (cases "recognized p") (auto simp add: immediate_pass_def regular_pass_def Let_def)

lemma clear_cover_cases:
  "clear_cover b s = s \<or> clear_cover b s = emit [Remove] s
     \<or> clear_cover b s = emit [Remove] (s\<lparr>cover_file := None\<rparr>)"
  by (simp add: clear_cover_def)

lemma clear_cover_vars:
  "last_track (clear_cover b s) = last_track s \<and>
   prev_listeners (clear_cover b s) = prev_listeners s"
  by (simp add: clear_cover_def emit_def)

lemma clear_cover_file: "\<not> b \<Longrightarrow> cover_file (clear_cover b s) = None"
  by (simp add: clear_cover_def emit_def)

lemma no_match_events:
  "\<exists>es. trace (emit [Metadata (metadata_params ''Unknown'' [] [])] (clear_cover b s))
          = trace s @ es @ [Metadata (metadata_params ''Unknown'' [] [])]
        \<and> publishes es = [] \<and> downloads es = []"
  using clear_cover_cases [of b s]
  by (auto simp add: emit_def)

text \<open>Every pass, returning or raising, starts with a capture.\<close>

lemma regular_pass_trace:
  "\<exists>es. trace (state_of (regular_pass p s)) = trace s @ Capture # es"
proof (cases "captured p")
  case False
  then show ?thesis by (simp add: regular_pass_no_capture emit_def state_of_def)
next
  case True
  show ?thesis
  proof (cases "recognized p")
    case None
    let ?s2 = "(emit [Capture, Recognize] s)\<lparr>last_track := None\<rparr>"
    obtain es where "trace (emit [Metadata (metadata_params ''Unknown'' [] [])]
                              (clear_cover (remove_raises p) ?s2))
       = trace ?s2 @ es @ [Metadata (metadata_params ''Unknown'' [] [])]"
      using no_match_events by blast
    with True None show ?thesis
      by (simp add: regular_pass_no_match emit_def state_of_def)
  next
    case (Some t)
    show ?thesis
    proof (cases "last_track s = Some t")
      case True
      with \<open>captured p\<close> Some show ?thesis
        by (simp add: regular_pass_unchanged emit_def state_of_def)
    next
      case False
      let ?s2 = "(emit [Capture, Recognize] s)\<lparr>last_track := Some t\<rparr>"
      have r: "regular_pass p s = handle_track t (download p) ?s2"
        using \<open>captured p\<close> Some False by (rule regular_pass_new)
      show ?thesis
      proof (cases "handle_track t (download p) ?s2")
        case (Inl x)
        from quietD [OF handle_track_raises [OF Inl]] obtain es
          where "trace (snd x) = trace ?s2 @ es" by blast
        with r Inl show ?thesis by (simp add: state_of_def emit_def)
      next
        case (Inr s')
        from handle_track_returns [OF Inr] obtain es
          where "trace s' = trace ?s2 @ es @ [Metadata (metadata_params (artist t) (title t)
                                                    (cover_url_for t (download p)))]"
          by blast
        with r Inr show ?thesis by (simp add: state_of_def emit_def)
      qed
    qed
  qed
qed

lemma regular_pass_since:
  "trace (state_of (regular_pass p s)) = trace s @ events_since s (state_of (regular_pass p s))"
  using regular_pass_trace [of p s] by (auto simp: events_since_def)

lemma regular_pass_starts:
  "take 1 (events_since s (state_of (regular_pass p s))) = [Capture]"
  using regular_pass_trace [of p s] by (auto simp: events_since_def)

text \<open>What a pass remembers, returning or raising.\<close>

lemma regular_pass_last_track:
  "last_track (state_of (regular_pass p s)) = (if captured p then recognized p else last_track s)"
proof (cases "captured p")
  case False
  then show ?thesis by (simp add: regular_pass_no_capture emit_def state_of_def)
next
  case True
  show ?thesis
  proof (cases "recognized p")
    case None
    with True show ?thesis
      by (simp add: regular_pass_no_match clear_cover_vars emit_def state_of_def)
  next
    case (Some t)
    show ?thesis
    proof (cases "last_track s = Some t")
      case True
      with \<open>captured p\<close> Some show ?thesis
        by (simp add: regular_pass_unchanged emit_def state_of_def)
    next
      case False
      let ?s2 = "(emit [Capture, Recognize] s)\<lparr>last_track := Some t\<rparr>"
      have r: "regular_pass p s = handle_track t (download p) ?s2"
        using \<open>captured p\<close> Some False by (rule regular_pass_new)
      show ?thesis
      proof (cases "handle_track t (download p) ?s2")
        case (Inl x)
        from quietD [OF handle_track_raises [OF Inl]]
        have "last_track (snd x) = last_track ?s2" by blast
        with r Inl \<open>captured p\<close> Some show ?thesis by (simp add: state_of_def)
      next
        case (Inr s')
        from handle_track_returns [OF Inr] have "last_track s' = last_track ?s2" by blast
        with r Inr \<open>captured p\<close> Some show ?thesis by (simp add: state_of_def)
      qed
    qed
  qed
qed

text \<open>What a pass that returns has published.\<close>

lemma regular_pass_publishes:
  assumes "regular_pass p s = Inr s'"
  shows "publishes (events_since s s') =
     (if \<not> captured p then []
      else case recognized p of
             None \<Rightarrow> [metadata_params ''Unknown'' [] []]
           | Some t \<Rightarrow>
               if last_track s = Some t then []
               else [metadata_params (artist t) (title t) (cover_url_for t (download p))])"
proof (cases "captured p")
  case False
  with assms show ?thesis by (auto simp add: regular_pass_no_capture events_since_emit)
next
  case True
  show ?thesis
  proof (cases "recognized p")
    case None
    let ?s2 = "(emit [Capture, Recognize] s)\<lparr>last_track := None\<rparr>"
    obtain es where "trace (emit [Metadata (metadata_params ''Unknown'' [] [])]
                              (clear_cover (remove_raises p) ?s2))
       = trace ?s2 @ es @ [Metadata (metadata_params ''Unknown'' [] [])]" and "publishes es = []"
      using no_match_events by blast
    with True None assms show ?thesis
      by (auto simp add: regular_pass_no_match events_since_def emit_def publishes_append)
  next
    case (Some t)
    show ?thesis
    proof (cases "last_track s = Some t")
      case True
      with \<open>captured p\<close> Some assms show ?thesis
        by (auto simp add: regular_pass_unchanged events_since_emit)
    next
      case False
      let ?s2 = "(emit [Capture, Recognize] s)\<lparr>last_track := Some t\<rparr>"
      from \<open>captured p\<close> Some False assms have h: "handle_track t (download p) ?s2 = Inr s'"
        by (simp add: regular_pass_new)
      from handle_track_returns [OF h] obtain es
        where "trace s' = trace ?s2 @ es @ [Metadata (metadata_params (artist t) (title t)
                                                  (cover_url_for t (download p)))]"
          and "publishes es = []"
        by blast
      with \<open>captured p\<close> Some False show ?thesis
        by (simp add: events_since_def emit_def publishes_append)
    qed
  qed
qed

text \<open>The three kinds of iteration.\<close>

lemma main_iteration_idle:
  "listeners_of env = Some n \<Longrightarrow> n < 1 \<Longrightarrow>
     main_iteration env s =
       Inr (if 1 \<le> prev_listeners s
            then emit [Metadata (metadata_params ''Paused'' [] []), Sleep 15]
                   (s\<lparr>prev_listeners := 0\<rparr>)
            else emit [Sleep 15] (s\<lparr>prev_listeners := 0\<rparr>))"
  by (simp add: main_iteration_def listeners_of_def sleep_def placeholder_update emit_def)

lemma main_iteration_steady:
  "listeners_of env = Some n \<Longrightarrow> 1 \<le> n \<Longrightarrow> prev_listeners s \<noteq> 0 \<Longrightarrow>
     main_iteration env s =
       (case regular_pass (regular env) (s\<lparr>prev_listeners := n\<rparr>) of
          Inl x \<Rightarrow> Inl x
        | Inr s2 \<Rightarrow> Inr (sleep POLL_INTERVAL s2))"
  by (simp add: main_iteration_def listeners_of_def)

lemma main_iteration_activation:
  "listeners_of env = Some n \<Longrightarrow> 1 \<le> n \<Longrightarrow> prev_listeners s = 0 \<Longrightarrow>
     main_iteration env s =
       (case immediate_pass (immediate env)
               (emit [Metadata (metadata_params ''Detecting...'' [] []), Sleep 5] s) of
          Inl x \<Rightarrow> Inl x
        | Inr s1 \<Rightarrow>
            (case regular_pass (regular env) (s1\<lparr>prev_listeners := n\<rparr>) of
               Inl x \<Rightarrow> Inl x
             | Inr s2 \<Rightarrow> Inr (sleep POLL_INTERVAL s2)))"
  by (simp add: main_iteration_def listeners_of_def activation_def sleep_def
        placeholder_update emit_def)

lemma idle_run_quiet:
  "list_all idle envs \<Longrightarrow> prev_listeners s < 1 \<Longrightarrow>
     main_loop envs s =
       Inr (emit (replicate (length envs) (Sleep 15))
              (if envs = [] then s else s\<lparr>prev_listeners := 0\<rparr>))"
proof (induction envs arbitrary: s)
  case Nil
  show ?case by (simp add: emit_def)
next
  case (Cons env envs)
  from Cons.prems obtain n where n: "listeners_of env = Some n" "n < 1"
    by (auto simp: idle_def split: option.splits)
  let ?s1 = "emit [Sleep 15] (s\<lparr>prev_listeners := 0\<rparr>)"
  from n Cons.prems have it: "main_iteration env s = Inr ?s1"
    by (simp add: main_iteration_idle)
  have "prev_listeners ?s1 < 1" by (simp add: emit_def)
  with Cons.IH [of ?s1] Cons.prems
  have "main_loop envs ?s1 = Inr (emit (replicate (length envs) (Sleep 15))
              (if envs = [] then ?s1 else ?s1\<lparr>prev_listeners := 0\<rparr>))"
    by simp
  with it show ?case by (simp add: emit_def)
qed

lemma listeners_of_cycle: "listeners_of (cycle n r1 r2) = Some n"
  by (simp add: listeners_of_def cycle_def listeners_doc_def status_document_def
        get_listener_count_def listener_count_of_def)

section \<open>Main loop: an unchanged track is not published again\<close>

text \<open>
  Claim C3. Whether a recognised track differs from the remembered one is decided by
  its four fields (title, artist, album, cover) and nothing else. In a pass that
  recognises the remembered track, regular or immediate, nothing happens but the capture
  and the recognition: no metadata update, no cover download. Recognising the same track
  in two passes in a row publishes nothing and downloads nothing in the second,
  whatever was remembered before the first. An iteration with listeners before and now,
  whose recognition returns the remembered track, captures, recognises and sleeps.
\<close>

theorem unchanged_track_skipped:
  assumes "captured p" and "recognized p = Some t"
  shows "(Some t \<noteq> last_track s) =
           (case last_track s of
              None \<Rightarrow> True
            | Some l \<Rightarrow> title t \<noteq> title l \<or> artist t \<noteq> artist l \<or>
                        album t \<noteq> album l \<or> cover t \<noteq> cover l) \<and>
         (last_track s = Some t \<longrightarrow>
            regular_pass p s = Inr (emit [Capture, Recognize] s) \<and>
            immediate_pass p s = Inr (emit [Capture, Recognize] s) \<and>
            publishes (events_since s (state_of (regular_pass p s))) = [] \<and>
            downloads (events_since s (state_of (regular_pass p s))) = []) \<and>
         (regular_pass p s = Inr s1 \<longrightarrow>
            regular_pass p s1 = Inr (emit [Capture, Recognize] s1)) \<and>
         publishes (events_since (state_of (regular_pass p s))
                      (state_of (regular_pass p (state_of (regular_pass p s))))) = [] \<and>
         downloads (events_since (state_of (regular_pass p s))
                      (state_of (regular_pass p (state_of (regular_pass p s))))) = [] \<and>
         (last_track s = Some t \<and> listeners_of env = Some n \<and> 1 \<le> n \<and> 1 \<le> prev_listeners s \<and>
          regular env = p \<longrightarrow>
            main_iteration env s
              = Inr (emit [Capture, Recognize, Sleep POLL_INTERVAL] (s\<lparr>prev_listeners := n\<rparr>)))"
proof (intro conjI impI)
  show "(Some t \<noteq> last_track s) =
           (case last_track s of
              None \<Rightarrow> True
            | Some l \<Rightarrow> title t \<noteq> title l \<or> artist t \<noteq> artist l \<or>
                        album t \<noteq> album l \<or> cover t \<noteq> cover l)"
    by (cases "last_track s") (auto simp: track_eq_fields)
next
  assume l: "last_track s = Some t"
  with assms show r: "regular_pass p s = Inr (emit [Capture, Recognize] s)"
    by (simp add: regular_pass_unchanged)
  then show "immediate_pass p s = Inr (emit [Capture, Recognize] s)"
    by (simp add: immediate_pass_regular)
  from r show "publishes (events_since s (state_of (regular_pass p s))) = []"
    by (simp add: events_since_emit state_of_def)
  from r show "downloads (events_since s (state_of (regular_pass p s))) = []"
    by (simp add: events_since_emit state_of_def)
next
  assume "regular_pass p s = Inr s1"
  with regular_pass_last_track [of p s] assms have "last_track s1 = Some t"
    by (simp add: state_of_def)
  with assms show "regular_pass p s1 = Inr (emit [Capture, Recognize] s1)"
    by (simp add: regular_pass_unchanged)
next
  let ?s1 = "state_of (regular_pass p s)"
  from regular_pass_last_track [of p s] assms have "last_track ?s1 = Some t" by simp
  with assms have "regular_pass p ?s1 = Inr (emit [Capture, Recognize] ?s1)"
    by (simp add: regular_pass_unchanged)
  then have "events_since ?s1 (state_of (regular_pass p ?s1)) = [Capture, Recognize]"
    by (simp add: events_since_emit state_of_def)
  then show "publishes (events_since ?s1 (state_of (regular_pass p ?s1))) = []"
    and "downloads (events_since ?s1 (state_of (regular_pass p ?s1))) = []"
    by simp_all
next
  assume a: "last_track s = Some t \<and> listeners_of env = Some n \<and> 1 \<le> n \<and>
             1 \<le> prev_listeners s \<and> regular env = p"
  then have "main_iteration env s =
       (case regular_pass p (s\<lparr>prev_listeners := n\<rparr>) of
          Inl x \<Rightarrow> Inl x
        | Inr s2 \<Rightarrow> Inr (sleep POLL_INTERVAL s2))"
    using main_iteration_steady [of env n s] by simp
  moreover from a assms
  have "regular_pass p (s\<lparr>prev_listeners := n\<rparr>)
          = Inr (emit [Capture, Recognize] (s\<lparr>prev_listeners := n\<rparr>))"
    by (simp add: regular_pass_unchanged)
  ultimately show "main_iteration env s
              = Inr (emit [Capture, Recognize, Sleep POLL_INTERVAL] (s\<lparr>prev_listeners := n\<rparr>))"
    by (simp add: sleep_def emit_def)
qed

theorem unchanged_track_skipped_witness:
  "captured (hears (Some echoes)) \<and> recognized (hears (Some echoes)) = Some echoes \<and>
   last_track playing = Some echoes \<and>
   listeners_of (cycle 2 None (Some echoes)) = Some 2 \<and> (1::int) \<le> 2 \<and>
   1 \<le> prev_listeners playing \<and> regular (cycle 2 None (Some echoes)) = hears (Some echoes) \<and>
   regular_pass (hears (Some echoes)) playing = Inr (emit [Capture, Recognize] playing) \<and>
   regular_pass (hears (Some echoes)) (emit [Capture, Recognize] playing)
     = Inr (emit [Capture, Recognize] (emit [Capture, Recognize] playing)) \<and>
   publishes (events_since playing (state_of (regular_pass (hears (Some echoes)) playing))) = [] \<and>
   downloads (events_since playing (state_of (regular_pass (hears (Some echoes)) playing))) = [] \<and>
   main_iteration (cycle 2 None (Some echoes)) playing
     = Inr (emit [Capture, Recognize, Sleep POLL_INTERVAL] (playing\<lparr>prev_listeners := 2\<rparr>))"
proof -
  have h: "captured (hears (Some echoes))" "recognized (hears (Some echoes)) = Some echoes"
    by (simp_all add: hears_def)
  have g: "last_track playing = Some echoes" "1 \<le> prev_listeners playing"
    by (simp_all add: playing_def)
  have r: "regular (cycle 2 None (Some echoes)) = hears (Some echoes)"
    by (simp add: cycle_def)
  have n: "(1::int) \<le> 2" by simp
  note T = unchanged_track_skipped
             [OF h, of playing "emit [Capture, Recognize] playing" "cycle 2 None (Some echoes)" 2]
  from T h g r n listeners_of_cycle [of 2 None "Some echoes"]
  show ?thesis by blast
qed

section \<open>Main loop: no match\<close>

text \<open>
  Claim C4. In a pass whose capture succeeds and whose recognition returns the empty
  result, regular or immediate, the loop forgets the remembered track, runs
  \<^verbatim>\<open>clear_cover\<close> and then publishes the placeholder \<^verbatim>\<open>Unknown\<close>, which is the only metadata
  update of the pass; the cover file is gone afterwards unless its removal raised. A
  later pass that recognises a track \<open>t\<close> then treats \<open>t\<close> as new, also when \<open>t\<close> was the
  track remembered before the gap: it remembers \<open>t\<close> and hands it to \<^verbatim>\<open>handle_track\<close>,
  whose metadata update is the one update of that pass. An iteration with listeners
  before and now runs the regular pass.
\<close>

theorem no_match_resets:
  assumes "captured p" and "recognized p = None"
  shows "regular_pass p s
           = Inr (emit [Metadata (metadata_params ''Unknown'' [] [])]
                    (clear_cover (remove_raises p)
                       ((emit [Capture, Recognize] s)\<lparr>last_track := None\<rparr>))) \<and>
         immediate_pass p s = regular_pass p s \<and>
         last_track (state_of (regular_pass p s)) = None \<and>
         publishes (events_since s (state_of (regular_pass p s)))
           = [metadata_params ''Unknown'' [] []] \<and>
         (\<not> remove_raises p \<longrightarrow> cover_file (state_of (regular_pass p s)) = None) \<and>
         (captured q \<and> recognized q = Some t \<longrightarrow>
            regular_pass q (state_of (regular_pass p s))
              = handle_track t (download q)
                  ((emit [Capture, Recognize] (state_of (regular_pass p s)))
                     \<lparr>last_track := Some t\<rparr>) \<and>
            last_track (state_of (regular_pass q (state_of (regular_pass p s)))) = Some t \<and>
            (regular_pass q (state_of (regular_pass p s)) = Inr s2 \<longrightarrow>
               publishes (events_since (state_of (regular_pass p s)) s2)
                 = [metadata_params (artist t) (title t) (cover_url_for t (download q))])) \<and>
         (listeners_of env = Some n \<and> 1 \<le> n \<and> 1 \<le> prev_listeners s \<and> regular env = p \<longrightarrow>
            main_iteration env s
              = Inr (sleep POLL_INTERVAL
                       (state_of (regular_pass p (s\<lparr>prev_listeners := n\<rparr>)))))"
proof (intro conjI impI)
  show r: "regular_pass p s
           = Inr (emit [Metadata (metadata_params ''Unknown'' [] [])]
                    (clear_cover (remove_raises p)
                       ((emit [Capture, Recognize] s)\<lparr>last_track := None\<rparr>)))"
    using assms by (rule regular_pass_no_match)
  show "immediate_pass p s = regular_pass p s" by (rule immediate_pass_regular)
  show l: "last_track (state_of (regular_pass p s)) = None"
    using assms by (simp add: regular_pass_last_track)
  show "publishes (events_since s (state_of (regular_pass p s)))
           = [metadata_params ''Unknown'' [] []]"
    using regular_pass_publishes [OF r] assms by (simp add: r state_of_def)
  {
    assume "\<not> remove_raises p"
    then show "cover_file (state_of (regular_pass p s)) = None"
      by (simp add: r state_of_def emit_def clear_cover_file)
  }
  {
    assume q: "captured q \<and> recognized q = Some t"
    with l show n: "regular_pass q (state_of (regular_pass p s))
              = handle_track t (download q)
                  ((emit [Capture, Recognize] (state_of (regular_pass p s)))
                     \<lparr>last_track := Some t\<rparr>)"
      by (simp add: regular_pass_new)
    from q show "last_track (state_of (regular_pass q (state_of (regular_pass p s)))) = Some t"
      by (simp add: regular_pass_last_track)
    {
      assume "regular_pass q (state_of (regular_pass p s)) = Inr s2"
      from regular_pass_publishes [OF this] q l
      show "publishes (events_since (state_of (regular_pass p s)) s2)
                 = [metadata_params (artist t) (title t) (cover_url_for t (download q))]"
        by simp
    }
  }
  {
    assume a: "listeners_of env = Some n \<and> 1 \<le> n \<and> 1 \<le> prev_listeners s \<and> regular env = p"
    from regular_pass_no_match [OF assms] obtain z
      where z: "regular_pass p (s\<lparr>prev_listeners := n\<rparr>) = Inr z" by blast
    then have "state_of (regular_pass p (s\<lparr>prev_listeners := n\<rparr>)) = z"
      by (simp add: state_of_def)
    with a z show "main_iteration env s
              = Inr (sleep POLL_INTERVAL
                       (state_of (regular_pass p (s\<lparr>prev_listeners := n\<rparr>))))"
      using main_iteration_steady [of env n s] by auto
  }
qed

theorem no_match_resets_witness:
  "captured (hears None) \<and> recognized (hears None) = None \<and> \<not> remove_raises (hears None) \<and>
   captured (hears (Some echoes)) \<and> recognized (hears (Some echoes)) = Some echoes \<and>
   last_track playing = Some echoes \<and>
   last_track (state_of (regular_pass (hears None) playing)) = None \<and>
   cover_file (state_of (regular_pass (hears None) playing)) = None \<and>
   publishes (events_since playing (state_of (regular_pass (hears None) playing)))
     = [[(''mount'', ''/stream.mp3''), (''mode'', ''updinfo''), (''song'', ''Unknown'')]] \<and>
   regular_pass (hears (Some echoes)) (state_of (regular_pass (hears None) playing))
     = Inr (state_of (regular_pass (hears (Some echoes))
                        (state_of (regular_pass (hears None) playing)))) \<and>
   publishes (events_since (state_of (regular_pass (hears None) playing))
       (state_of (regular_pass (hears (Some echoes))
                    (state_of (regular_pass (hears None) playing)))))
     = [[(''mount'', ''/stream.mp3''), (''mode'', ''updinfo''),
         (''song'', ''Pink Floyd - Echoes''), (''url'', ''http://localhost:8000/cover.jpg'')]]"
proof -
  let ?s1 = "state_of (regular_pass (hears None) playing)"
  have h: "captured (hears None)" "recognized (hears None) = None"
    by (simp_all add: hears_def)
  have q: "captured (hears (Some echoes))" "recognized (hears (Some echoes)) = Some echoes"
    "\<not> remove_raises (hears None)"
    by (simp_all add: hears_def)
  have g: "last_track playing = Some echoes" by (simp add: playing_def)
  have u: "cover_url_for echoes (download (hears (Some echoes))) = COVER_PUBLIC_URL"
    by (simp add: cover_url_for_def arrives_def hears_def good_download_def echoes_def)
  have e1: "metadata_params ''Unknown'' [] []
              = [(''mount'', ''/stream.mp3''), (''mode'', ''updinfo''), (''song'', ''Unknown'')]"
    by (simp add: metadata_params_def song_of_def ICECAST_MOUNT_def)
  have e2: "metadata_params (artist echoes) (title echoes) COVER_PUBLIC_URL
              = [(''mount'', ''/stream.mp3''), (''mode'', ''updinfo''),
                 (''song'', ''Pink Floyd - Echoes''), (''url'', ''http://localhost:8000/cover.jpg'')]"
    by (simp add: metadata_params_def song_of_def echoes_def ICECAST_MOUNT_def
          COVER_PUBLIC_URL_def)
  have ret: "handle_track echoes good_download z
               = Inr (state_of (handle_track echoes good_download z))" for z
    by (simp add: handle_track_def download_cover_def good_download_def echoes_def
          update_icecast_metadata_returns COVER_PUBLIC_URL_def state_of_def)
  note T = no_match_resets
             [OF h, of playing "hears (Some echoes)" echoes
                "state_of (regular_pass (hears (Some echoes)) ?s1)"]
  from T have a1: "last_track ?s1 = None" by blast
  from T q have a2: "cover_file ?s1 = None" by blast
  from T have "publishes (events_since playing ?s1) = [metadata_params ''Unknown'' [] []]"
    by blast
  then have a3: "publishes (events_since playing ?s1)
     = [[(''mount'', ''/stream.mp3''), (''mode'', ''updinfo''), (''song'', ''Unknown'')]]"
    by (simp only: e1)
  from T q have "regular_pass (hears (Some echoes)) ?s1
              = handle_track echoes (download (hears (Some echoes)))
                  ((emit [Capture, Recognize] ?s1)\<lparr>last_track := Some echoes\<rparr>)"
    by blast
  then have a4: "regular_pass (hears (Some echoes)) ?s1
              = Inr (state_of (regular_pass (hears (Some echoes)) ?s1))"
    using ret [of "(emit [Capture, Recognize] ?s1)\<lparr>last_track := Some echoes\<rparr>"]
    by (simp only: hears_def pass_env.simps)
  from T q a4 have "publishes (events_since ?s1 (state_of (regular_pass (hears (Some echoes)) ?s1)))
     = [metadata_params (artist echoes) (title echoes)
          (cover_url_for echoes (download (hears (Some echoes))))]"
    by blast
  then have a5: "publishes (events_since ?s1 (state_of (regular_pass (hears (Some echoes)) ?s1)))
     = [[(''mount'', ''/stream.mp3''), (''mode'', ''updinfo''),
         (''song'', ''Pink Floyd - Echoes''), (''url'', ''http://localhost:8000/cover.jpg'')]]"
    by (simp only: u e2)
  from a1 a2 a3 a4 a5 h q g show ?thesis by blast
qed

section \<open>Main loop: the idle edge\<close>

text \<open>
  Claim C5. When the listener count was at least 1 and the loop then runs any number of
  iterations, at least one, in which the count is below 1, the placeholder \<^verbatim>\<open>Paused\<close>
  (artist \<^verbatim>\<open>Paused\<close>, empty title, no cover URL) is published in the first of them and
  never again: the trace grows by that one update and one sleep of 15 seconds per
  iteration, and the remembered count becomes 0.
\<close>

theorem paused_once:
  assumes "1 \<le> prev_listeners s" and "envs \<noteq> []" and "list_all idle envs"
  shows "main_loop envs s
           = Inr (emit (Metadata (metadata_params ''Paused'' [] []) # replicate (length envs) (Sleep 15))
                    (s\<lparr>prev_listeners := 0\<rparr>)) \<and>
         metadata_params ''Paused'' [] []
           = [(''mount'', ICECAST_MOUNT), (''mode'', ''updinfo''), (''song'', ''Paused'')] \<and>
         publishes (Metadata (metadata_params ''Paused'' [] []) # replicate (length envs) (Sleep 15))
           = [metadata_params ''Paused'' [] []]"
proof (intro conjI)
  from assms obtain env rest where e: "envs = env # rest" by (cases envs) auto
  with assms obtain n where n: "listeners_of env = Some n" "n < 1"
    by (auto simp: idle_def split: option.splits)
  let ?s1 = "emit [Metadata (metadata_params ''Paused'' [] []), Sleep 15] (s\<lparr>prev_listeners := 0\<rparr>)"
  from n assms(1) have it: "main_iteration env s = Inr ?s1"
    by (simp add: main_iteration_idle)
  from assms e have "list_all idle rest" by simp
  moreover have "prev_listeners ?s1 < 1" by (simp add: emit_def)
  ultimately have "main_loop rest ?s1
      = Inr (emit (replicate (length rest) (Sleep 15)) (if rest = [] then ?s1 else ?s1\<lparr>prev_listeners := 0\<rparr>))"
    by (rule idle_run_quiet)
  with it e show "main_loop envs s
           = Inr (emit (Metadata (metadata_params ''Paused'' [] []) # replicate (length envs) (Sleep 15))
                    (s\<lparr>prev_listeners := 0\<rparr>))"
    by (simp add: emit_def)
  show "metadata_params ''Paused'' [] []
           = [(''mount'', ICECAST_MOUNT), (''mode'', ''updinfo''), (''song'', ''Paused'')]"
    by (simp add: metadata_params_def song_of_def)
  have "publishes (replicate k (Sleep 15)) = []" for k by (induction k) simp_all
  then show "publishes (Metadata (metadata_params ''Paused'' [] []) # replicate (length envs) (Sleep 15))
           = [metadata_params ''Paused'' [] []]"
    by simp
qed

theorem paused_once_witness:
  "1 \<le> prev_listeners playing \<and>
   [cycle 0 None None, cycle 0 None None, cycle 0 None None] \<noteq> [] \<and>
   list_all idle [cycle 0 None None, cycle 0 None None, cycle 0 None None] \<and>
   main_loop [cycle 0 None None, cycle 0 None None, cycle 0 None None] playing
     = Inr (playing\<lparr>prev_listeners := 0,
              trace := [Metadata [(''mount'', ''/stream.mp3''), (''mode'', ''updinfo''),
                                  (''song'', ''Paused'')],
                        Sleep 15, Sleep 15, Sleep 15]\<rparr>)"
proof -
  have g: "1 \<le> prev_listeners playing" by (simp add: playing_def)
  have i: "list_all idle [cycle 0 None None, cycle 0 None None, cycle 0 None None]"
    by (simp add: idle_def listeners_of_cycle)
  from paused_once [OF g _ i] g i
  show ?thesis
    by (simp add: emit_def playing_def ICECAST_MOUNT_def)
qed

section \<open>Main loop: the activation edge\<close>

text \<open>
  Claim C6. In an iteration that finds at least one listener after none, the first thing
  done is the publication of the placeholder \<^verbatim>\<open>Detecting...\<close>, the second the sleep of 5
  seconds, the third the capture that starts the immediate pass. When the immediate pass
  returns, the regular pass follows in the same iteration and starts with a capture too;
  when that returns as well, the iteration ends with the sleep of the poll interval.
  So the placeholder precedes every recognition result of the iteration and the settle
  delay precedes every capture.
\<close>

theorem activation_order:
  assumes "prev_listeners s = 0" and "listeners_of env = Some n" and "1 \<le> n"
  shows "main_iteration env s =
           (case immediate_pass (immediate env)
                   (emit [Metadata (metadata_params ''Detecting...'' [] []), Sleep 5] s) of
              Inl x \<Rightarrow> Inl x
            | Inr s2 \<Rightarrow>
                (case regular_pass (regular env) (s2\<lparr>prev_listeners := n\<rparr>) of
                   Inl x \<Rightarrow> Inl x
                 | Inr s3 \<Rightarrow> Inr (sleep POLL_INTERVAL s3))) \<and>
         take 3 (events_since s (state_of (main_iteration env s)))
           = [Metadata (metadata_params ''Detecting...'' [] []), Sleep 5, Capture] \<and>
         (immediate_pass (immediate env)
            (emit [Metadata (metadata_params ''Detecting...'' [] []), Sleep 5] s) = Inr s2 \<longrightarrow>
            take (length (events_since
                            (emit [Metadata (metadata_params ''Detecting...'' [] []), Sleep 5] s)
                            s2) + 3)
              (events_since s (state_of (main_iteration env s)))
              = [Metadata (metadata_params ''Detecting...'' [] []), Sleep 5]
                @ events_since (emit [Metadata (metadata_params ''Detecting...'' [] []), Sleep 5] s)
                    s2
                @ [Capture] \<and>
            take 1 (events_since
                      (emit [Metadata (metadata_params ''Detecting...'' [] []), Sleep 5] s) s2)
              = [Capture]) \<and>
         (immediate_pass (immediate env)
            (emit [Metadata (metadata_params ''Detecting...'' [] []), Sleep 5] s) = Inr s2 \<and>
          regular_pass (regular env) (s2\<lparr>prev_listeners := n\<rparr>) = Inr s3 \<longrightarrow>
            main_iteration env s = Inr (sleep POLL_INTERVAL s3) \<and>
            events_since s (sleep POLL_INTERVAL s3)
              = [Metadata (metadata_params ''Detecting...'' [] []), Sleep 5]
                @ events_since (emit [Metadata (metadata_params ''Detecting...'' [] []), Sleep 5] s)
                    s2
                @ events_since s2 s3 @ [Sleep POLL_INTERVAL] \<and>
            take 1 (events_since s2 s3) = [Capture])"
proof -
  let ?d = "[Metadata (metadata_params ''Detecting...'' [] []), Sleep 5]"
  let ?s1 = "emit ?d s"
  have it: "main_iteration env s =
           (case immediate_pass (immediate env) ?s1 of
              Inl x \<Rightarrow> Inl x
            | Inr s2 \<Rightarrow>
                (case regular_pass (regular env) (s2\<lparr>prev_listeners := n\<rparr>) of
                   Inl x \<Rightarrow> Inl x
                 | Inr s3 \<Rightarrow> Inr (sleep POLL_INTERVAL s3)))"
    using assms by (simp add: main_iteration_activation)
  have t1: "trace ?s1 = trace s @ ?d" by (simp add: emit_def)
  obtain es2 where es2: "trace (state_of (immediate_pass (immediate env) ?s1))
                           = trace ?s1 @ Capture # es2"
    using regular_pass_trace [of "immediate env" ?s1] by (auto simp: immediate_pass_regular)
  have regular_after: "\<exists>es3. trace (state_of (regular_pass (regular env) (z\<lparr>prev_listeners := n\<rparr>)))
                          = trace z @ Capture # es3" for z
    using regular_pass_trace [of "regular env" "z\<lparr>prev_listeners := n\<rparr>"] by simp
  have first: "take 3 (events_since s (state_of (main_iteration env s))) = ?d @ [Capture]"
  proof (cases "immediate_pass (immediate env) ?s1")
    case (Inl x)
    with it es2 t1 show ?thesis by (simp add: state_of_def events_since_def)
  next
    case imm: (Inr z)
    with es2 have z: "trace z = trace ?s1 @ Capture # es2" by (simp add: state_of_def)
    from regular_after [of z] obtain es3
      where es3: "trace (state_of (regular_pass (regular env) (z\<lparr>prev_listeners := n\<rparr>)))
                    = trace z @ Capture # es3" by blast
    show ?thesis
    proof (cases "regular_pass (regular env) (z\<lparr>prev_listeners := n\<rparr>)")
      case (Inl x)
      with it imm es3 z t1 show ?thesis by (simp add: state_of_def events_since_def)
    next
      case (Inr w)
      with it imm es3 z t1 show ?thesis
        by (simp add: state_of_def events_since_def sleep_def emit_def)
    qed
  qed
  have second: "take (length (events_since ?s1 s2) + 3)
                  (events_since s (state_of (main_iteration env s)))
                  = ?d @ events_since ?s1 s2 @ [Capture] \<and>
                take 1 (events_since ?s1 s2) = [Capture]"
    if imm: "immediate_pass (immediate env) ?s1 = Inr s2"
  proof -
    from imm es2 have z: "trace s2 = trace ?s1 @ Capture # es2" by (simp add: state_of_def)
    then have e2: "events_since ?s1 s2 = Capture # es2" by (simp add: events_since_def)
    from regular_after [of s2] obtain es3
      where es3: "trace (state_of (regular_pass (regular env) (s2\<lparr>prev_listeners := n\<rparr>)))
                    = trace s2 @ Capture # es3" by blast
    have "\<exists>rest. events_since s (state_of (main_iteration env s))
                   = ?d @ (Capture # es2) @ Capture # rest"
    proof (cases "regular_pass (regular env) (s2\<lparr>prev_listeners := n\<rparr>)")
      case (Inl x)
      with it imm es3 z t1 show ?thesis by (simp add: state_of_def events_since_def)
    next
      case (Inr w)
      with it imm es3 z t1 show ?thesis
        by (simp add: state_of_def events_since_def sleep_def emit_def)
    qed
    then obtain rest where "events_since s (state_of (main_iteration env s))
                   = (?d @ (Capture # es2) @ [Capture]) @ rest"
      by auto
    moreover have "length xs = k \<Longrightarrow> take k (xs @ ys) = xs" for xs ys :: "event list" and k
      by simp
    moreover from e2
    have "length (?d @ (Capture # es2) @ [Capture]) = length (events_since ?s1 s2) + 3"
      by simp
    ultimately have "take (length (events_since ?s1 s2) + 3)
                 (events_since s (state_of (main_iteration env s)))
                 = ?d @ (Capture # es2) @ [Capture]"
      by metis
    with e2 show ?thesis by simp
  qed
  have third: "main_iteration env s = Inr (sleep POLL_INTERVAL s3) \<and>
               events_since s (sleep POLL_INTERVAL s3)
                 = ?d @ events_since ?s1 s2 @ events_since s2 s3 @ [Sleep POLL_INTERVAL] \<and>
               take 1 (events_since s2 s3) = [Capture]"
    if both: "immediate_pass (immediate env) ?s1 = Inr s2 \<and>
              regular_pass (regular env) (s2\<lparr>prev_listeners := n\<rparr>) = Inr s3"
  proof -
    from both es2 have z: "trace s2 = trace ?s1 @ Capture # es2" by (simp add: state_of_def)
    from regular_after [of s2] both obtain es3 where es3: "trace s3 = trace s2 @ Capture # es3"
      by (auto simp: state_of_def)
    from z have a2: "events_since ?s1 s2 = Capture # es2" by (simp add: events_since_def)
    from es3 have a3: "events_since s2 s3 = Capture # es3" by (simp add: events_since_def)
    from it both have "main_iteration env s = Inr (sleep POLL_INTERVAL s3)" by simp
    moreover from z es3 t1
    have "events_since s (sleep POLL_INTERVAL s3)
            = ?d @ (Capture # es2) @ (Capture # es3) @ [Sleep POLL_INTERVAL]"
      by (simp add: events_since_def sleep_def emit_def)
    ultimately show ?thesis using a2 a3 by simp
  qed
  from it first second third show ?thesis by simp
qed

theorem activation_order_witness:
  "prev_listeners (initial None None) = 0 \<and>
   listeners_of (cycle 1 (Some echoes) (Some echoes)) = Some 1 \<and> (1::int) \<le> 1 \<and>
   take 3 (events_since (initial None None)
             (state_of (main_iteration (cycle 1 (Some echoes) (Some echoes)) (initial None None))))
     = [Metadata (metadata_params ''Detecting...'' [] []), Sleep 5, Capture] \<and>
   main_iteration (cycle 1 (Some echoes) (Some echoes)) (initial None None)
     = Inr \<lparr>last_track = Some echoes, prev_listeners = 1, tmp_file = None,
            cover_file = Some ''new'',
            trace =
              [Metadata [(''mount'', ''/stream.mp3''), (''mode'', ''updinfo''),
                         (''song'', ''Detecting...'')],
               Sleep 5,
               Capture, Recognize, Urlopen ''http://x/cover.jpg'', OpenTmp, Write ''new'', Flush,
               Fsync, Replace,
               Metadata [(''mount'', ''/stream.mp3''), (''mode'', ''updinfo''),
                         (''song'', ''Pink Floyd - Echoes''),
                         (''url'', ''http://localhost:8000/cover.jpg'')],
               Capture, Recognize,
               Sleep 30]\<rparr>"
proof -
  have g: "prev_listeners (initial None None) = 0" by (simp add: initial_def)
  have l: "listeners_of (cycle 1 (Some echoes) (Some echoes)) = Some 1"
    by (rule listeners_of_cycle)
  have n: "(1::int) \<le> 1" by simp
  note T = activation_order [OF g l n]
  from T have a1: "take 3 (events_since (initial None None)
             (state_of (main_iteration (cycle 1 (Some echoes) (Some echoes)) (initial None None))))
     = [Metadata (metadata_params ''Detecting...'' [] []), Sleep 5, Capture]"
    by blast
  from T have "main_iteration (cycle 1 (Some echoes) (Some echoes)) (initial None None) =
           (case immediate_pass (immediate (cycle 1 (Some echoes) (Some echoes)))
                   (emit [Metadata (metadata_params ''Detecting...'' [] []), Sleep 5]
                      (initial None None)) of
              Inl x \<Rightarrow> Inl x
            | Inr s2 \<Rightarrow>
                (case regular_pass (regular (cycle 1 (Some echoes) (Some echoes)))
                        (s2\<lparr>prev_listeners := 1\<rparr>) of
                   Inl x \<Rightarrow> Inl x
                 | Inr s3 \<Rightarrow> Inr (sleep POLL_INTERVAL s3)))"
    by blast
  then have a2: "main_iteration (cycle 1 (Some echoes) (Some echoes)) (initial None None)
     = Inr \<lparr>last_track = Some echoes, prev_listeners = 1, tmp_file = None,
            cover_file = Some ''new'',
            trace =
              [Metadata [(''mount'', ''/stream.mp3''), (''mode'', ''updinfo''),
                         (''song'', ''Detecting...'')],
               Sleep 5,
               Capture, Recognize, Urlopen ''http://x/cover.jpg'', OpenTmp, Write ''new'', Flush,
               Fsync, Replace,
               Metadata [(''mount'', ''/stream.mp3''), (''mode'', ''updinfo''),
                         (''song'', ''Pink Floyd - Echoes''),
                         (''url'', ''http://localhost:8000/cover.jpg'')],
               Capture, Recognize,
               Sleep 30]\<rparr>"
    by (simp add: cycle_def hears_def good_download_def initial_def echoes_def sleep_def emit_def
          immediate_pass_def regular_pass_def handle_track_def download_cover_def
          update_icecast_metadata_returns metadata_params_def song_of_def Let_def
          POLL_INTERVAL_def ICECAST_MOUNT_def COVER_PUBLIC_URL_def)
  from g l n a1 a2 show ?thesis by blast
qed

section \<open>Main loop: what is remembered across a pause\<close>

text \<open>
  The idle iterations and the placeholders \<^verbatim>\<open>Paused\<close> and \<^verbatim>\<open>Detecting...\<close> leave the
  remembered track as it is; only the placeholder \<^verbatim>\<open>Unknown\<close> comes with a reset. So when
  the listeners come back to the track that was playing before they left, both passes
  of the activation recognise the remembered track and publish nothing: the only update
  of that iteration is the placeholder \<^verbatim>\<open>Detecting...\<close>.
\<close>

lemma pass_same_track:
  assumes "recognized p = Some t" and "last_track z = Some t"
  shows "\<exists>es. regular_pass p z = Inr (emit es z) \<and> publishes es = []"
proof (cases "captured p")
  case True
  with assms have "regular_pass p z = Inr (emit [Capture, Recognize] z)"
    by (simp add: regular_pass_unchanged)
  moreover have "publishes [Capture, Recognize] = []" by simp
  ultimately show ?thesis by blast
next
  case False
  then have "regular_pass p z = Inr (emit [Capture] z)" by (simp add: regular_pass_no_capture)
  moreover have "publishes [Capture] = []" by simp
  ultimately show ?thesis by blast
qed

lemma resume_same_track:
  assumes "last_track s = Some t" and "prev_listeners s = 0"
    and "listeners_of env = Some n" and "1 \<le> n"
    and "recognized (immediate env) = Some t" and "recognized (regular env) = Some t"
  shows "\<exists>s'. main_iteration env s = Inr s' \<and> last_track s' = Some t \<and>
           publishes (events_since s s') = [metadata_params ''Detecting...'' [] []]"
proof -
  let ?s1 = "emit [Metadata (metadata_params ''Detecting...'' [] []), Sleep 5] s"
  have l1: "last_track ?s1 = Some t" using assms by (simp add: emit_def)
  from pass_same_track [OF assms(5) l1] obtain es
    where es: "regular_pass (immediate env) ?s1 = Inr (emit es ?s1)" "publishes es = []"
    by blast
  let ?s2 = "(emit es ?s1)\<lparr>prev_listeners := n\<rparr>"
  have l2: "last_track ?s2 = Some t" using l1 by (simp add: emit_def)
  from pass_same_track [OF assms(6) l2] obtain fs
    where fs: "regular_pass (regular env) ?s2 = Inr (emit fs ?s2)" "publishes fs = []"
    by blast
  let ?s3 = "sleep POLL_INTERVAL (emit fs ?s2)"
  from assms es fs have "main_iteration env s = Inr ?s3"
    by (simp add: main_iteration_activation immediate_pass_regular)
  moreover have "last_track ?s3 = Some t" using l2 by (simp add: sleep_def emit_def)
  moreover have "events_since s ?s3
      = [Metadata (metadata_params ''Detecting...'' [] []), Sleep 5] @ es @ fs
        @ [Sleep POLL_INTERVAL]"
    by (simp add: events_since_def sleep_def emit_def)
  then have "publishes (events_since s ?s3) = [metadata_params ''Detecting...'' [] []]"
    using es fs by (simp add: publishes_append)
  ultimately show ?thesis by blast
qed


end
